theory Spec2Isabelle
  imports Main "HOL-Library.Sublist"
begin

section \<open>Identifier math (src/isin.ts)\<close>

text \<open>
  JavaScript strings are modelled as \<^typ>\<open>string\<close>; a \<^typ>\<open>char\<close> stands for one code
  unit. The functions of this module only tell ASCII digits and ASCII letters from
  everything else, so every other code unit behaves like any other non-alphanumeric
  character.
\<close>

definition is_upper :: "char \<Rightarrow> bool" where
  \<comment> \<open>\<^verbatim>\<open>char >= "A" && char <= "Z"\<close>, the character class \<^verbatim>\<open>[A-Z]\<close>\<close>
  "is_upper c = (65 \<le> (of_char c :: nat) \<and> (of_char c :: nat) \<le> 90)"

definition is_lower :: "char \<Rightarrow> bool" where
  "is_lower c = (97 \<le> (of_char c :: nat) \<and> (of_char c :: nat) \<le> 122)"

definition is_digit :: "char \<Rightarrow> bool" where
  \<comment> \<open>\<^verbatim>\<open>char >= "0" && char <= "9"\<close>\<close>
  "is_digit c = (48 \<le> (of_char c :: nat) \<and> (of_char c :: nat) \<le> 57)"

definition digit_char :: "nat \<Rightarrow> char" where
  "digit_char n = char_of (48 + n)"

function toString :: "nat \<Rightarrow> string" where
  \<comment> \<open>\<^verbatim>\<open>Number.prototype.toString()\<close> on a non-negative integer: its decimal numeral\<close>
  "toString n = (if n < 10 then [digit_char n] else toString (n div 10) @ [digit_char (n mod 10)])"
  by pat_completeness auto
termination
  by (relation "measure (\<lambda>n. n)") auto

declare toString.simps [simp del]

definition Number_digit :: "char \<Rightarrow> nat" where
  \<comment> \<open>\<^verbatim>\<open>Number(ch)\<close> on a one-character string holding an ASCII digit\<close>
  "Number_digit c = of_char c - 48"

datatype isin_error =
    BaseLengthError
  | InvalidCharacterError char
  | CusipLengthError
  | CusipCharactersError

fun message :: "isin_error \<Rightarrow> string" where
  "message BaseLengthError = ''Base must be exactly 11 characters (country code + NSIN)''"
| "message (InvalidCharacterError c) = ''Invalid character in ISIN: '' @ [c]"
| "message CusipLengthError = ''CUSIP must be exactly 9 characters''"
| "message CusipCharactersError = ''CUSIP contains invalid characters''"

definition char_to_numeric :: "char \<Rightarrow> isin_error + string" where
  \<comment> \<open>the callback of \<^verbatim>\<open>.map\<close> in \<^verbatim>\<open>computeIsinCheckDigit\<close>\<close>
  "char_to_numeric c =
     (if is_upper c then Inr (toString (of_char c - 65 + 10))
      else if is_digit c then Inr [c]
      else Inl (InvalidCharacterError c))"

fun numericString :: "string \<Rightarrow> isin_error + string" where
  \<comment> \<open>\<^verbatim>\<open>base.split("").map(...).join("")\<close>: the first offending character throws\<close>
  "numericString [] = Inr []"
| "numericString (c # cs) =
     (case char_to_numeric c of
        Inl e \<Rightarrow> Inl e
      | Inr d \<Rightarrow> (case numericString cs of Inl e \<Rightarrow> Inl e | Inr ds \<Rightarrow> Inr (d @ ds)))"

fun luhn_loop :: "nat list \<Rightarrow> nat \<Rightarrow> nat \<Rightarrow> nat" where
  \<comment> \<open>the \<^verbatim>\<open>for (let i = digits.length - 1; i >= 0; i--)\<close> loop; the second argument is
      \<^verbatim>\<open>i + 1\<close>, the third (\<open>acc\<close>) is the running \<^verbatim>\<open>sum\<close>\<close>
  "luhn_loop digits 0 acc = acc"
| "luhn_loop digits (Suc i) acc =
     (let positionFromRight = length digits - i;
          digit = digits ! i;
          digit = (if positionFromRight mod 2 = 1
                   then (let digit = digit * 2
                         in if digit > 9 then digit div 10 + digit mod 10 else digit)
                   else digit)
      in luhn_loop digits i (acc + digit))"

definition computeIsinCheckDigit :: "string \<Rightarrow> isin_error + nat" where
  "computeIsinCheckDigit base =
     (if length base \<noteq> 11 then Inl BaseLengthError
      else case numericString base of
        Inl e \<Rightarrow> Inl e
      | Inr ns \<Rightarrow>
          (let digits = map Number_digit ns;
               acc = luhn_loop digits (length digits) 0
           in Inr ((10 - acc mod 10) mod 10)))"

record IsinValidationResult =
  valid :: bool
  error :: "string option"

definition parseInt_char :: "char \<Rightarrow> nat option" where
  \<comment> \<open>\<^verbatim>\<open>parseInt(ch, 10)\<close> on a one-character string: \<open>None\<close> is \<^verbatim>\<open>NaN\<close>\<close>
  "parseInt_char c = (if is_digit c then Some (of_char c - 48) else None)"

definition validateIsin :: "string \<Rightarrow> IsinValidationResult" where
  "validateIsin isin =
     (if length isin \<noteq> 12
      then \<lparr>valid = False, error = Some ''ISIN must be exactly 12 characters''\<rparr>
      else
        let countryCode = take 2 isin in
        if \<not> (length countryCode = 2 \<and> list_all is_upper countryCode)
        then \<lparr>valid = False,
              error = Some ''ISIN must start with 2 uppercase letters (country code)''\<rparr>
        else
          let base = take 11 isin;
              providedCheckDigit = parseInt_char (isin ! 11)
          in case providedCheckDigit of
               None \<Rightarrow> \<lparr>valid = False, error = Some ''Check digit must be a number''\<rparr>
             | Some provided \<Rightarrow>
                 (case computeIsinCheckDigit base of
                    Inr computedCheckDigit \<Rightarrow>
                      if computedCheckDigit \<noteq> provided
                      then \<lparr>valid = False, error = Some ''Invalid check digit''\<rparr>
                      else \<lparr>valid = True, error = None\<rparr>
                  | Inl e \<Rightarrow> \<lparr>valid = False, error = Some (message e)\<rparr>))"

definition toUpperCase :: "string \<Rightarrow> string" where
  \<comment> \<open>\<^verbatim>\<open>String.prototype.toUpperCase\<close> on the ASCII letters; \<^verbatim>\<open>cusipToIsin\<close> applies it
      only to strings that passed the alphanumeric test\<close>
  "toUpperCase s = map (\<lambda>c. if is_lower c then char_of ((of_char c :: nat) - 32) else c) s"

definition is_alnum_i :: "char \<Rightarrow> bool" where
  \<comment> \<open>the class \<^verbatim>\<open>[A-Z0-9]\<close> under the \<^verbatim>\<open>i\<close> flag\<close>
  "is_alnum_i c = (is_upper c \<or> is_lower c \<or> is_digit c)"

definition cusipToIsin :: "string \<Rightarrow> isin_error + string" where
  "cusipToIsin cusip =
     (if length cusip \<noteq> 9 then Inl CusipLengthError
      else if \<not> (cusip \<noteq> [] \<and> list_all is_alnum_i cusip) then Inl CusipCharactersError
      else
        let normalizedCusip = toUpperCase cusip;
            base = ''US'' @ normalizedCusip
        in case computeIsinCheckDigit base of
             Inl e \<Rightarrow> Inl e
           | Inr checkDigit \<Rightarrow> Inr (base @ toString checkDigit))"

subsection \<open>The check-digit procedure as the specification words it\<close>

definition spec_numeral :: "char \<Rightarrow> string" where
  \<comment> \<open>step 1: a digit maps to itself, a letter to 10..35 (A = 10, ..., Z = 35)\<close>
  "spec_numeral c =
     (if is_digit c then [c] else toString (10 + ((of_char c :: nat) - of_char CHR ''A'')))"

definition spec_reduce :: "nat \<Rightarrow> nat" where
  \<comment> \<open>step 3: a doubled value above 9 is replaced by the sum of its two digits\<close>
  "spec_reduce d = (if 2 * d > 9 then (2 * d) div 10 + (2 * d) mod 10 else 2 * d)"

definition spec_check_digit :: "string \<Rightarrow> nat" where
  \<comment> \<open>steps 1 to 5: positions are counted from the right-hand end, starting at 1\<close>
  "spec_check_digit base =
     (let numerals = concat (map spec_numeral base);
          from_right = zip [1 ..< Suc (length numerals)] (rev (map Number_digit numerals));
          weighted_sum = sum_list (map (\<lambda>(p, d). if odd p then spec_reduce d else d) from_right)
      in (10 - weighted_sum mod 10) mod 10)"

definition weight :: "nat \<Rightarrow> nat \<Rightarrow> nat" where
  \<comment> \<open>what the digit \<open>d\<close> at position \<open>p\<close> from the right contributes to the sum\<close>
  "weight p d = (if odd p then spec_reduce d else d)"

definition is_base_char :: "char \<Rightarrow> bool" where
  \<comment> \<open>an ASCII digit or an ASCII uppercase letter\<close>
  "is_base_char c = (is_digit c \<or> is_upper c)"

section \<open>The Financial Modeling Prep client (src/apis/fmp.ts)\<close>

text \<open>
  A value produced by \<^verbatim>\<open>response.json()\<close>. The property list of an object holds each key
  once, as the parsed object does. The payload of a number is not inspected by the client.
\<close>

datatype json =
    JNull
  | JBool bool
  | JNumber int
  | JString string
  | JArray "json list"
  | JObject "(string \<times> json) list"

record Response =
  status :: nat
  statusText :: string
  json_body :: "string + json"
    \<comment> \<open>what \<^verbatim>\<open>response.json()\<close> settles to: \<open>Inl\<close> the rendered parse error, \<open>Inr\<close> the value\<close>

datatype fetch_outcome =
    Rejected_TypeError string
      \<comment> \<open>\<^verbatim>\<open>fetch\<close> threw a \<^verbatim>\<open>TypeError\<close> with this message (DNS, connection, timeout)\<close>
  | Rejected_other string
      \<comment> \<open>\<^verbatim>\<open>fetch\<close> threw something else, rendered as a string\<close>
  | Resolved Response

datatype fmp_error =
    FmpApiError string "nat option"
      \<comment> \<open>message and \<^verbatim>\<open>statusCode\<close>\<close>
  | FmpRateLimitError string
      \<comment> \<open>the subclass; its constructor passes 429 to the base class\<close>
  | TypeError string
      \<comment> \<open>a runtime \<^verbatim>\<open>TypeError\<close> of the language that the function does not catch\<close>

fun error_name :: "fmp_error \<Rightarrow> string" where
  \<comment> \<open>the \<^verbatim>\<open>name\<close> property each constructor sets\<close>
  "error_name (FmpApiError m c) = ''FmpApiError''"
| "error_name (FmpRateLimitError m) = ''FmpRateLimitError''"
| "error_name (TypeError m) = ''TypeError''"

fun statusCode :: "fmp_error \<Rightarrow> nat option" where
  "statusCode (FmpApiError m c) = c"
| "statusCode (FmpRateLimitError m) = Some 429"
| "statusCode (TypeError m) = None"

record fetched_SecurityData =
  \<comment> \<open>the \<^verbatim>\<open>securityData\<close> object; a property that the profile lacks is \<open>None\<close>\<close>
  f_ticker :: "json option"
  f_name :: "json option"
  f_exchange :: "json option"
  f_source :: string
  f_isin :: "json option"
  f_cusip :: "json option"
  f_cik :: "json option"
  f_market_sector :: "json option"

definition is_whitespace :: "char \<Rightarrow> bool" where
  \<comment> \<open>the white space and line terminators that \<^verbatim>\<open>trim\<close> removes, among the code units below 256\<close>
  "is_whitespace c = ((of_char c :: nat) \<in> {9, 10, 11, 12, 13, 32, 160})"

definition apiKey_missing :: "string \<Rightarrow> bool" where
  \<comment> \<open>\<^verbatim>\<open>!apiKey || apiKey.trim() === ""\<close>\<close>
  "apiKey_missing apiKey = (apiKey = [] \<or> list_all is_whitespace apiKey)"

definition str_includes :: "string \<Rightarrow> string \<Rightarrow> bool" where
  \<comment> \<open>\<^verbatim>\<open>String.prototype.includes\<close>\<close>
  "str_includes s pat = sublist pat s"

definition response_ok :: "Response \<Rightarrow> bool" where
  \<comment> \<open>\<^verbatim>\<open>response.ok\<close>\<close>
  "response_ok r = (200 \<le> status r \<and> status r \<le> 299)"

fun typeof :: "json \<Rightarrow> string" where
  "typeof JNull = ''object''"
| "typeof (JBool b) = ''boolean''"
| "typeof (JNumber n) = ''number''"
| "typeof (JString s) = ''string''"
| "typeof (JArray xs) = ''object''"
| "typeof (JObject kvs) = ''object''"

fun get_property :: "json \<Rightarrow> string \<Rightarrow> json option" where
  \<comment> \<open>\<^verbatim>\<open>v[key]\<close> for a non-null value and a key that is neither an index nor built in;
      \<open>None\<close> is \<^verbatim>\<open>undefined\<close>\<close>
  "get_property (JObject kvs) key = map_of kvs key"
| "get_property v key = None"

fun has_property :: "json \<Rightarrow> string \<Rightarrow> bool" where
  \<comment> \<open>\<^verbatim>\<open>key in v\<close> for an object or array \<open>v\<close>\<close>
  "has_property (JObject kvs) key = (key \<in> set (map fst kvs))"
| "has_property v key = False"

definition RATE_LIMIT_MESSAGE :: string where
  "RATE_LIMIT_MESSAGE =
     ''Rate limit exceeded (250 requests/day). Please try again tomorrow or upgrade your plan.''"

definition auth_failure :: "Response \<Rightarrow> fmp_error" where
  \<comment> \<open>the branch for status 401 and 403\<close>
  "auth_failure r =
     (let body = (case json_body r of Inl e \<Rightarrow> JObject [] | Inr v \<Rightarrow> v);
          failed = FmpApiError (''Authentication failed: HTTP '' @ toString (status r))
                     (Some (status r));
          invalid = FmpApiError
                     ''Invalid API KEY. Please check your FMP_API_KEY environment variable.''
                     (Some 401)
      in case body of
           JNull \<Rightarrow> TypeError ''Cannot read properties of null''
         | _ \<Rightarrow>
           (case get_property body ''Error Message'' of
              None \<Rightarrow> failed
            | Some JNull \<Rightarrow> failed
            | Some (JString m) \<Rightarrow> if str_includes m ''Invalid API KEY'' then invalid else failed
            | Some (JArray xs) \<Rightarrow> if JString ''Invalid API KEY'' \<in> set xs then invalid else failed
            | Some _ \<Rightarrow> TypeError ''includes is not a function''))"

definition is_rate_limit_body :: "json list \<Rightarrow> bool" where
  \<comment> \<open>the test for a rate limit reported inside a successful response\<close>
  "is_rate_limit_body data =
     (length data = 1 \<and>
      typeof (data ! 0) = ''object'' \<and>
      data ! 0 \<noteq> JNull \<and>
      has_property (data ! 0) ''message'' \<and>
      (case get_property (data ! 0) ''message'' of
         Some (JString m) \<Rightarrow> str_includes m ''rate limit''
       | _ \<Rightarrow> False))"

definition fetchTickerProfile :: "string \<Rightarrow> string \<Rightarrow> fetch_outcome \<Rightarrow> fmp_error + fetched_SecurityData"
  where
  \<comment> \<open>the third argument is what \<^verbatim>\<open>fetch\<close> gives for the request; it is only consulted
      once the API key has passed its check\<close>
  "fetchTickerProfile ticker apiKey outcome =
     (if apiKey_missing apiKey then Inl (FmpApiError ''API key is required'' None)
      else case outcome of
        Rejected_TypeError m \<Rightarrow> Inl (FmpApiError (''Network error: '' @ m) None)
      | Rejected_other e \<Rightarrow> Inl (FmpApiError (''Unexpected error: '' @ e) None)
      | Resolved response \<Rightarrow>
          if \<not> response_ok response then
            (if status response = 429 then Inl (FmpRateLimitError RATE_LIMIT_MESSAGE)
             else if status response = 401 \<or> status response = 403
               then Inl (auth_failure response)
             else if status response \<ge> 500
               then Inl (FmpApiError (''FMP server error: HTTP '' @ toString (status response)
                           @ '' '' @ statusText response) (Some (status response)))
             else Inl (FmpApiError (''HTTP '' @ toString (status response) @ '': ''
                           @ statusText response) (Some (status response))))
          else case json_body response of
            Inl e \<Rightarrow> Inl (FmpApiError (''Failed to parse JSON response: '' @ e) None)
          | Inr (JArray data) \<Rightarrow>
              if is_rate_limit_body data then Inl (FmpRateLimitError RATE_LIMIT_MESSAGE)
              else if length data = 0
                then Inl (FmpApiError (''Ticker not found: '' @ ticker) (Some 404))
              else
                (case data ! 0 of
                   JNull \<Rightarrow> Inl (TypeError ''Cannot read properties of null'')
                 | profile \<Rightarrow>
                     Inr \<lparr>f_ticker = get_property profile ''symbol'',
                          f_name = get_property profile ''companyName'',
                          f_exchange = get_property profile ''exchange'',
                          f_source = ''fmp'',
                          f_isin = get_property profile ''isin'',
                          f_cusip = get_property profile ''cusip'',
                          f_cik = get_property profile ''cik'',
                          f_market_sector = get_property profile ''sector''\<rparr>)
          | Inr data \<Rightarrow>
              Inl (FmpApiError (''Invalid response format: expected array, got '' @ typeof data)
                     None))"

section \<open>The store (src/db.ts)\<close>

text \<open>
  A table is the list of its rows. Row identities are modelled as \<^typ>\<open>int\<close> (the
  program holds them as numbers, exact below \<open>2^53\<close>); the clock value
  \<^verbatim>\<open>Math.floor(Date.now() / 1000)\<close> is an argument of \<open>insertSecurity\<close>.
  An optional string property is a \<^typ>\<open>string option\<close>, \<open>None\<close> standing for
  \<^verbatim>\<open>undefined\<close> and for \<^verbatim>\<open>null\<close>. The interface \<^verbatim>\<open>SecurityData\<close> declares
  \<^verbatim>\<open>name\<close>, \<^verbatim>\<open>ticker\<close>, \<^verbatim>\<open>exchange\<close> and \<^verbatim>\<open>source\<close> as strings, and every row is written by
  \<open>insertSecurity\<close>, so these columns never hold \<^verbatim>\<open>NULL\<close>.
\<close>

record SecurityData =
  name :: string
  ticker :: string
  exchange :: string
  isin :: "string option"
  cusip :: "string option"
  cik :: "string option"
  figi :: "string option"
  source :: string
  security_type :: "string option"
  market_sector :: "string option"

record SecurityResult =
  \<comment> \<open>the object literal the lookups return\<close>
  res_id :: int
  res_name :: string
  res_ticker :: "string option"
  res_exchange :: "string option"
  res_isin :: "string option"
  res_cusip :: "string option"
  res_cik :: "string option"
  res_security_type :: "string option"
  res_market_sector :: "string option"
  res_source :: string
  res_fetched_at :: int

record securities_row =
  s_id :: int
  s_name :: string
  s_security_type :: "string option"
  s_market_sector :: "string option"
  s_created_at :: int
  s_updated_at :: int

record 'k identifier_row =
  \<comment> \<open>a row of one of the four identifier tables; \<open>key_value\<close> is the primary key:
      the pair (ticker, exchange), the isin, the cusip or the cik\<close>
  security_id :: int
  key_value :: 'k
  row_source :: string
  row_fetched_at :: int

record Database =
  securities :: "securities_row list"
  sqlite_sequence :: int
    \<comment> \<open>the largest row identity \<^verbatim>\<open>AUTOINCREMENT\<close> has handed out for \<open>securities\<close>\<close>
  identifiers_ticker :: "(string \<times> string) identifier_row list"
  identifiers_isin :: "string identifier_row list"
  identifiers_cusip :: "string identifier_row list"
  identifiers_cik :: "string identifier_row list"

datatype db_error = ForeignKeyConstraintFailed

definition initDatabase :: Database where
  \<comment> \<open>a new store, such as \<^verbatim>\<open>:memory:\<close>: every table exists and is empty\<close>
  "initDatabase = \<lparr>securities = [], sqlite_sequence = 0, identifiers_ticker = [],
     identifiers_isin = [], identifiers_cusip = [], identifiers_cik = []\<rparr>"

definition or_null :: "string option \<Rightarrow> string option" where
  \<comment> \<open>\<^verbatim>\<open>x || null\<close> on an optional string: the empty string is falsy too\<close>
  "or_null x = (case x of None \<Rightarrow> None | Some v \<Rightarrow> if v = [] then None else Some v)"

definition falsy_id :: "int option \<Rightarrow> bool" where
  \<comment> \<open>\<^verbatim>\<open>!securityId\<close>: \<^verbatim>\<open>undefined\<close> and \<^verbatim>\<open>0\<close> are falsy\<close>
  "falsy_id securityId = (securityId = None \<or> securityId = Some 0)"

definition select_security_id :: "'k identifier_row list \<Rightarrow> 'k \<Rightarrow> int option" where
  \<comment> \<open>\<^verbatim>\<open>SELECT security_id FROM table WHERE key = ?\<close> with \<^verbatim>\<open>.get\<close>: the first row, if any\<close>
  "select_security_id table k = map_option security_id (find (\<lambda>r. key_value r = k) table)"

definition ids :: "Database \<Rightarrow> int list" where
  "ids db = map s_id (securities db)"

definition next_rowid :: "Database \<Rightarrow> int" where
  \<comment> \<open>\<^verbatim>\<open>AUTOINCREMENT\<close>: one more than the largest identity the table has or ever had\<close>
  "next_rowid db = max (sqlite_sequence db) (fold max (ids db) 0) + 1"

definition on_conflict_do_update ::
  "'k identifier_row list \<Rightarrow> int \<Rightarrow> 'k \<Rightarrow> string \<Rightarrow> int \<Rightarrow> 'k identifier_row list"
  where
  \<comment> \<open>\<^verbatim>\<open>INSERT ... ON CONFLICT(key) DO UPDATE SET security_id, source, fetched_at\<close>\<close>
  "on_conflict_do_update table securityId k src timestamp =
     (if k \<in> set (map key_value table)
      then map (\<lambda>r. if key_value r = k
                     then r\<lparr>security_id := securityId, row_source := src,
                            row_fetched_at := timestamp\<rparr>
                     else r) table
      else table @ [\<lparr>security_id = securityId, key_value = k, row_source = src,
                      row_fetched_at = timestamp\<rparr>])"

definition upsert_identifier ::
  "Database \<Rightarrow> 'k identifier_row list \<Rightarrow> int \<Rightarrow> 'k \<Rightarrow> string \<Rightarrow> int \<Rightarrow> db_error + 'k identifier_row list"
  where
  \<comment> \<open>the statement fails when \<open>security_id\<close> names no row of \<open>securities\<close>:
      \<^verbatim>\<open>PRAGMA foreign_keys = ON\<close>\<close>
  "upsert_identifier db table securityId k src timestamp =
     (if securityId \<notin> set (ids db) then Inl ForeignKeyConstraintFailed
      else Inr (on_conflict_do_update table securityId k src timestamp))"

definition upsert_optional ::
  "Database \<Rightarrow> string identifier_row list \<Rightarrow> int \<Rightarrow> string option \<Rightarrow> string \<Rightarrow> int
     \<Rightarrow> db_error + string identifier_row list"
  where
  \<comment> \<open>\<^verbatim>\<open>if (security.isin) { upsert }\<close>, and the same for the cusip and the cik\<close>
  "upsert_optional db table securityId v src timestamp =
     (case or_null v of
        None \<Rightarrow> Inr table
      | Some k \<Rightarrow> upsert_identifier db table securityId k src timestamp)"

definition find_existing :: "Database \<Rightarrow> SecurityData \<Rightarrow> int option" where
  \<comment> \<open>the three probes at the head of \<open>insertSecurity\<close>; the result is \<^verbatim>\<open>securityId\<close>\<close>
  "find_existing db security =
     (let securityId = select_security_id (identifiers_ticker db)
                         (ticker security, exchange security);
          securityId =
            (if falsy_id securityId
             then (case or_null (isin security) of
                     None \<Rightarrow> securityId
                   | Some v \<Rightarrow>
                       (case select_security_id (identifiers_isin db) v of
                          Some existingByIsin \<Rightarrow> Some existingByIsin
                        | None \<Rightarrow> securityId))
             else securityId);
          securityId =
            (if falsy_id securityId
             then (case or_null (cusip security) of
                     None \<Rightarrow> securityId
                   | Some v \<Rightarrow>
                       (case select_security_id (identifiers_cusip db) v of
                          Some existingByCusip \<Rightarrow> Some existingByCusip
                        | None \<Rightarrow> securityId))
             else securityId)
      in securityId)"

definition create_or_update :: "Database \<Rightarrow> SecurityData \<Rightarrow> int \<Rightarrow> int option \<Rightarrow> int \<times> Database"
  where
  \<comment> \<open>\<^verbatim>\<open>INSERT INTO securities\<close> when nothing truthy was found, \<^verbatim>\<open>UPDATE securities\<close> otherwise\<close>
  "create_or_update db security timestamp securityId =
     (case (if falsy_id securityId then None else securityId) of
        None \<Rightarrow>
          (let rowid = next_rowid db
           in (rowid,
               db\<lparr>securities := securities db @
                     [\<lparr>s_id = rowid, s_name = name security,
                       s_security_type = or_null (security_type security),
                       s_market_sector = or_null (market_sector security),
                       s_created_at = timestamp, s_updated_at = timestamp\<rparr>],
                   sqlite_sequence := rowid\<rparr>))
      | Some found \<Rightarrow>
          (found,
           db\<lparr>securities :=
                map (\<lambda>s. if s_id s = found
                          then s\<lparr>s_name := name security,
                                 s_security_type := or_null (security_type security),
                                 s_market_sector := or_null (market_sector security),
                                 s_updated_at := timestamp\<rparr>
                          else s) (securities db)\<rparr>))"

definition insertSecurity :: "Database \<Rightarrow> SecurityData \<Rightarrow> int \<Rightarrow> db_error + (int \<times> Database)" where
  \<comment> \<open>the statements run outside a transaction; a foreign-key failure can only come from
      the first upsert, after an \<^verbatim>\<open>UPDATE\<close> that matched no row, so the store is then unchanged\<close>
  "insertSecurity db security timestamp =
     (case create_or_update db security timestamp (find_existing db security) of
        (securityId, db1) \<Rightarrow>
     case upsert_identifier db1 (identifiers_ticker db1) securityId
            (ticker security, exchange security) (source security) timestamp of
        Inl e \<Rightarrow> Inl e
      | Inr tickers \<Rightarrow>
     case upsert_optional db1 (identifiers_isin db1) securityId (isin security)
            (source security) timestamp of
        Inl e \<Rightarrow> Inl e
      | Inr isins \<Rightarrow>
     case upsert_optional db1 (identifiers_cusip db1) securityId (cusip security)
            (source security) timestamp of
        Inl e \<Rightarrow> Inl e
      | Inr cusips \<Rightarrow>
     case upsert_optional db1 (identifiers_cik db1) securityId (cik security)
            (source security) timestamp of
        Inl e \<Rightarrow> Inl e
      | Inr ciks \<Rightarrow>
          Inr (securityId,
               db1\<lparr>identifiers_ticker := tickers, identifiers_isin := isins,
                   identifiers_cusip := cusips, identifiers_cik := ciks\<rparr>))"

definition left_join :: "'a list \<Rightarrow> ('a \<Rightarrow> bool) \<Rightarrow> 'a option list" where
  \<comment> \<open>\<^verbatim>\<open>LEFT JOIN table ON cond\<close>: the matching rows, or one absent row when there is none\<close>
  "left_join table on_cond =
     (case filter on_cond table of [] \<Rightarrow> [None] | rs \<Rightarrow> map Some rs)"

definition first_row :: "'a list \<Rightarrow> 'a option" where
  \<comment> \<open>\<^verbatim>\<open>.get\<close>: the first row of the result, or \<^verbatim>\<open>undefined\<close>\<close>
  "first_row rows = (case rows of [] \<Rightarrow> None | r # _ \<Rightarrow> Some r)"

text \<open>
  The three \<^verbatim>\<open>SELECT\<close> statements. The queries have no \<^verbatim>\<open>ORDER BY\<close>; the rows are listed
  in the order of a nested loop over the tables as the statement names them.
\<close>

definition select_by_ticker ::
  "Database \<Rightarrow> ((string \<times> string) identifier_row \<Rightarrow> bool) \<Rightarrow>
     (securities_row \<times> (string \<times> string) identifier_row \<times> string identifier_row option
        \<times> string identifier_row option \<times> string identifier_row option) list"
  where
  "select_by_ticker db where_cond =
     [(s, t, i, c, k).
        t \<leftarrow> filter where_cond (identifiers_ticker db),
        s \<leftarrow> filter (\<lambda>s. security_id t = s_id s) (securities db),
        i \<leftarrow> left_join (identifiers_isin db) (\<lambda>i. s_id s = security_id i),
        c \<leftarrow> left_join (identifiers_cusip db) (\<lambda>c. s_id s = security_id c),
        k \<leftarrow> left_join (identifiers_cik db) (\<lambda>k. s_id s = security_id k)]"

definition select_by_isin ::
  "Database \<Rightarrow> string \<Rightarrow>
     (securities_row \<times> string identifier_row \<times> (string \<times> string) identifier_row option
        \<times> string identifier_row option \<times> string identifier_row option) list"
  where
  "select_by_isin db v =
     [(s, i, t, c, k).
        i \<leftarrow> filter (\<lambda>i. key_value i = v) (identifiers_isin db),
        s \<leftarrow> filter (\<lambda>s. security_id i = s_id s) (securities db),
        t \<leftarrow> left_join (identifiers_ticker db) (\<lambda>t. s_id s = security_id t),
        c \<leftarrow> left_join (identifiers_cusip db) (\<lambda>c. s_id s = security_id c),
        k \<leftarrow> left_join (identifiers_cik db) (\<lambda>k. s_id s = security_id k)]"

definition select_by_cusip ::
  "Database \<Rightarrow> string \<Rightarrow>
     (securities_row \<times> string identifier_row \<times> (string \<times> string) identifier_row option
        \<times> string identifier_row option \<times> string identifier_row option) list"
  where
  "select_by_cusip db v =
     [(s, c, t, i, k).
        c \<leftarrow> filter (\<lambda>c. key_value c = v) (identifiers_cusip db),
        s \<leftarrow> filter (\<lambda>s. security_id c = s_id s) (securities db),
        t \<leftarrow> left_join (identifiers_ticker db) (\<lambda>t. s_id s = security_id t),
        i \<leftarrow> left_join (identifiers_isin db) (\<lambda>i. s_id s = security_id i),
        k \<leftarrow> left_join (identifiers_cik db) (\<lambda>k. s_id s = security_id k)]"

definition lookupByTicker :: "Database \<Rightarrow> string \<Rightarrow> string option \<Rightarrow> SecurityResult option" where
  "lookupByTicker db tk ex =
     (let result =
            (case or_null ex of
               Some e \<Rightarrow>
                 first_row (select_by_ticker db
                   (\<lambda>t. fst (key_value t) = tk \<and> snd (key_value t) = e))
             | None \<Rightarrow>
                 first_row (take 1 (select_by_ticker db (\<lambda>t. fst (key_value t) = tk))))
      in case result of
           None \<Rightarrow> None
         | Some (s, t, i, c, k) \<Rightarrow>
             Some \<lparr>res_id = s_id s,
                   res_name = s_name s,
                   res_ticker = Some (fst (key_value t)),
                   res_exchange = Some (snd (key_value t)),
                   res_isin = or_null (map_option key_value i),
                   res_cusip = or_null (map_option key_value c),
                   res_cik = or_null (map_option key_value k),
                   res_security_type = or_null (s_security_type s),
                   res_market_sector = or_null (s_market_sector s),
                   res_source = ''db'',
                   res_fetched_at = row_fetched_at t\<rparr>)"

definition lookupByIsin :: "Database \<Rightarrow> string \<Rightarrow> SecurityResult option" where
  "lookupByIsin db v =
     (case first_row (select_by_isin db v) of
        None \<Rightarrow> None
      | Some (s, i, t, c, k) \<Rightarrow>
          Some \<lparr>res_id = s_id s,
                res_name = s_name s,
                res_ticker = or_null (map_option (\<lambda>t. fst (key_value t)) t),
                res_exchange = or_null (map_option (\<lambda>t. snd (key_value t)) t),
                res_isin = Some (key_value i),
                res_cusip = or_null (map_option key_value c),
                res_cik = or_null (map_option key_value k),
                res_security_type = or_null (s_security_type s),
                res_market_sector = or_null (s_market_sector s),
                res_source = ''db'',
                res_fetched_at = row_fetched_at i\<rparr>)"

definition lookupByCusip :: "Database \<Rightarrow> string \<Rightarrow> SecurityResult option" where
  "lookupByCusip db v =
     (case first_row (select_by_cusip db v) of
        None \<Rightarrow> None
      | Some (s, c, t, i, k) \<Rightarrow>
          Some \<lparr>res_id = s_id s,
                res_name = s_name s,
                res_ticker = or_null (map_option (\<lambda>t. fst (key_value t)) t),
                res_exchange = or_null (map_option (\<lambda>t. snd (key_value t)) t),
                res_isin = or_null (map_option key_value i),
                res_cusip = Some (key_value c),
                res_cik = or_null (map_option key_value k),
                res_security_type = or_null (s_security_type s),
                res_market_sector = or_null (s_market_sector s),
                res_source = ''db'',
                res_fetched_at = row_fetched_at c\<rparr>)"

subsection \<open>Notions used to state the properties of the store\<close>

definition store_ok :: "Database \<Rightarrow> bool" where
  \<comment> \<open>what the schema enforces: primary keys, foreign keys, and row identities handed out
      by \<^verbatim>\<open>AUTOINCREMENT\<close>, which are positive\<close>
  "store_ok db =
     (distinct (ids db) \<and> (\<forall>i \<in> set (ids db). 0 < i) \<and>
      distinct (map key_value (identifiers_ticker db)) \<and>
      distinct (map key_value (identifiers_isin db)) \<and>
      distinct (map key_value (identifiers_cusip db)) \<and>
      distinct (map key_value (identifiers_cik db)) \<and>
      (\<forall>r \<in> set (identifiers_ticker db). security_id r \<in> set (ids db)) \<and>
      (\<forall>r \<in> set (identifiers_isin db). security_id r \<in> set (ids db)) \<and>
      (\<forall>r \<in> set (identifiers_cusip db). security_id r \<in> set (ids db)) \<and>
      (\<forall>r \<in> set (identifiers_cik db). security_id r \<in> set (ids db)))"

fun insert_all :: "Database \<Rightarrow> (SecurityData \<times> int) list \<Rightarrow> db_error + Database" where
  \<comment> \<open>a sequence of calls of \<open>insertSecurity\<close>, each with its clock value\<close>
  "insert_all db [] = Inr db"
| "insert_all db ((security, timestamp) # rest) =
     (case insertSecurity db security timestamp of
        Inl e \<Rightarrow> Inl e
      | Inr (securityId, db') \<Rightarrow> insert_all db' rest)"

definition probes :: "Database \<Rightarrow> SecurityData \<Rightarrow> int option list" where
  \<comment> \<open>the specification's ordered probes: (ticker, exchange), then the ISIN if supplied,
      then the CUSIP if supplied\<close>
  "probes db security =
     [select_security_id (identifiers_ticker db) (ticker security, exchange security),
      (case or_null (isin security) of
         None \<Rightarrow> None | Some v \<Rightarrow> select_security_id (identifiers_isin db) v),
      (case or_null (cusip security) of
         None \<Rightarrow> None | Some v \<Rightarrow> select_security_id (identifiers_cusip db) v)]"

definition first_match :: "int option list \<Rightarrow> int option" where
  "first_match ps = (case filter (\<lambda>p. p \<noteq> None) ps of [] \<Rightarrow> None | p # _ \<Rightarrow> p)"

definition forget_timestamps :: "Database \<Rightarrow> Database" where
  \<comment> \<open>the store with every update and fetch timestamp blanked\<close>
  "forget_timestamps db =
     db\<lparr>securities := map (\<lambda>s. s\<lparr>s_updated_at := 0\<rparr>) (securities db),
        identifiers_ticker := map (\<lambda>r. r\<lparr>row_fetched_at := 0\<rparr>) (identifiers_ticker db),
        identifiers_isin := map (\<lambda>r. r\<lparr>row_fetched_at := 0\<rparr>) (identifiers_isin db),
        identifiers_cusip := map (\<lambda>r. r\<lparr>row_fetched_at := 0\<rparr>) (identifiers_cusip db),
        identifiers_cik := map (\<lambda>r. r\<lparr>row_fetched_at := 0\<rparr>) (identifiers_cik db)\<rparr>"

definition updated_in_place ::
  "'k identifier_row list \<Rightarrow> 'k identifier_row list \<Rightarrow> 'k \<Rightarrow> int \<Rightarrow> string \<Rightarrow> int \<Rightarrow> bool" where
  \<comment> \<open>\<open>new\<close> is \<open>old\<close> with the one row of key \<open>k\<close> re-pointed, re-tagged and re-stamped\<close>
  "updated_in_place old new k securityId src timestamp =
     (length new = length old \<and>
      (\<forall>j < length old.
         new ! j = (if key_value (old ! j) = k
                    then (old ! j)\<lparr>security_id := securityId, row_source := src,
                                   row_fetched_at := timestamp\<rparr>
                    else old ! j)) \<and>
      length (filter (\<lambda>r. key_value r = k) new) = 1)"

definition on_conflict_optional ::
  "string identifier_row list \<Rightarrow> int \<Rightarrow> string option \<Rightarrow> string \<Rightarrow> int \<Rightarrow> string identifier_row list"
  where
  \<comment> \<open>the rows an optional upsert leaves when its foreign key holds\<close>
  "on_conflict_optional table securityId v src timestamp =
     (case or_null v of
        None \<Rightarrow> table
      | Some k \<Rightarrow> on_conflict_do_update table securityId k src timestamp)"

definition update_security :: "SecurityData \<Rightarrow> int \<Rightarrow> int \<Rightarrow> securities_row \<Rightarrow> securities_row" where
  \<comment> \<open>the effect of the \<^verbatim>\<open>UPDATE securities ... WHERE id = ?\<close> statement on one row\<close>
  "update_security security timestamp found s =
     (if s_id s = found
      then s\<lparr>s_name := name security,
             s_security_type := or_null (security_type security),
             s_market_sector := or_null (market_sector security),
             s_updated_at := timestamp\<rparr>
      else s)"

definition with_identifiers :: "Database \<Rightarrow> int \<Rightarrow> SecurityData \<Rightarrow> int \<Rightarrow> Database" where
  \<comment> \<open>the store after the four upserts, when their foreign key holds\<close>
  "with_identifiers db securityId security timestamp =
     db\<lparr>identifiers_ticker :=
          on_conflict_do_update (identifiers_ticker db) securityId
            (ticker security, exchange security) (source security) timestamp,
        identifiers_isin :=
          on_conflict_optional (identifiers_isin db) securityId (isin security)
            (source security) timestamp,
        identifiers_cusip :=
          on_conflict_optional (identifiers_cusip db) securityId (cusip security)
            (source security) timestamp,
        identifiers_cik :=
          on_conflict_optional (identifiers_cik db) securityId (cik security)
            (source security) timestamp\<rparr>"

definition new_security :: "SecurityData \<Rightarrow> int \<Rightarrow> int \<Rightarrow> securities_row" where
  \<comment> \<open>the row the \<^verbatim>\<open>INSERT INTO securities\<close> statement adds\<close>
  "new_security security timestamp rowid =
     \<lparr>s_id = rowid, s_name = name security,
      s_security_type = or_null (security_type security),
      s_market_sector = or_null (market_sector security),
      s_created_at = timestamp, s_updated_at = timestamp\<rparr>"

subsection \<open>Example records and stores\<close>

definition Apple :: "string \<Rightarrow> SecurityData" where
  \<comment> \<open>the record of the end-to-end scenario, with a provenance tag\<close>
  "Apple src =
     \<lparr>name = ''Apple Inc.'', ticker = ''AAPL'', exchange = ''NASDAQ'',
      isin = Some ''US0378331005'', cusip = Some ''037833100'', cik = None, figi = None,
      source = src, security_type = None, market_sector = None\<rparr>"

definition alpha :: SecurityData where
  "alpha =
     \<lparr>name = ''Alpha Corp'', ticker = ''AAA'', exchange = ''NYSE'',
      isin = None, cusip = None, cik = None, figi = None,
      source = ''test'', security_type = None, market_sector = None\<rparr>"

definition beta :: SecurityData where
  "beta =
     \<lparr>name = ''Beta Corp'', ticker = ''BBB'', exchange = ''NYSE'',
      isin = Some ''US0378331005'', cusip = None, cik = None, figi = None,
      source = ''test'', security_type = None, market_sector = None\<rparr>"

definition alpha_with_isin :: SecurityData where
  \<comment> \<open>the first listing again, now reported with the ISIN the store holds for the second\<close>
  "alpha_with_isin = alpha\<lparr>isin := Some ''US0378331005'', source := ''fmp''\<rparr>"

definition two_securities :: Database where
  \<comment> \<open>the store after \<open>alpha\<close> at time 1 and \<open>beta\<close> at time 2\<close>
  "two_securities =
     \<lparr>securities =
        [\<lparr>s_id = 1, s_name = ''Alpha Corp'', s_security_type = None, s_market_sector = None,
          s_created_at = 1, s_updated_at = 1\<rparr>,
         \<lparr>s_id = 2, s_name = ''Beta Corp'', s_security_type = None, s_market_sector = None,
          s_created_at = 2, s_updated_at = 2\<rparr>],
      sqlite_sequence = 2,
      identifiers_ticker =
        [\<lparr>security_id = 1, key_value = (''AAA'', ''NYSE''), row_source = ''test'',
          row_fetched_at = 1\<rparr>,
         \<lparr>security_id = 2, key_value = (''BBB'', ''NYSE''), row_source = ''test'',
          row_fetched_at = 2\<rparr>],
      identifiers_isin =
        [\<lparr>security_id = 2, key_value = ''US0378331005'', row_source = ''test'',
          row_fetched_at = 2\<rparr>],
      identifiers_cusip = [],
      identifiers_cik = []\<rparr>"

definition relinked :: Database where
  \<comment> \<open>\<open>two_securities\<close> after \<open>alpha_with_isin\<close> at time 3\<close>
  "relinked =
     \<lparr>securities =
        [\<lparr>s_id = 1, s_name = ''Alpha Corp'', s_security_type = None, s_market_sector = None,
          s_created_at = 1, s_updated_at = 3\<rparr>,
         \<lparr>s_id = 2, s_name = ''Beta Corp'', s_security_type = None, s_market_sector = None,
          s_created_at = 2, s_updated_at = 2\<rparr>],
      sqlite_sequence = 2,
      identifiers_ticker =
        [\<lparr>security_id = 1, key_value = (''AAA'', ''NYSE''), row_source = ''fmp'',
          row_fetched_at = 3\<rparr>,
         \<lparr>security_id = 2, key_value = (''BBB'', ''NYSE''), row_source = ''test'',
          row_fetched_at = 2\<rparr>],
      identifiers_isin =
        [\<lparr>security_id = 1, key_value = ''US0378331005'', row_source = ''fmp'',
          row_fetched_at = 3\<rparr>],
      identifiers_cusip = [],
      identifiers_cik = []\<rparr>"

definition Apple_with_cik :: "string \<Rightarrow> SecurityData" where
  "Apple_with_cik src = (Apple src)\<lparr>cik := Some ''0000320193''\<rparr>"

definition apple_store :: Database where
  \<comment> \<open>the new store after \<open>Apple_with_cik ''fmp''\<close> at time 1\<close>
  "apple_store =
     \<lparr>securities =
        [\<lparr>s_id = 1, s_name = ''Apple Inc.'', s_security_type = None, s_market_sector = None,
          s_created_at = 1, s_updated_at = 1\<rparr>],
      sqlite_sequence = 1,
      identifiers_ticker =
        [\<lparr>security_id = 1, key_value = (''AAPL'', ''NASDAQ''), row_source = ''fmp'',
          row_fetched_at = 1\<rparr>],
      identifiers_isin =
        [\<lparr>security_id = 1, key_value = ''US0378331005'', row_source = ''fmp'',
          row_fetched_at = 1\<rparr>],
      identifiers_cusip =
        [\<lparr>security_id = 1, key_value = ''037833100'', row_source = ''fmp'',
          row_fetched_at = 1\<rparr>],
      identifiers_cik =
        [\<lparr>security_id = 1, key_value = ''0000320193'', row_source = ''fmp'',
          row_fetched_at = 1\<rparr>]\<rparr>"

section \<open>Verified properties of the identifier math\<close>

lemma upper_not_digit: "is_upper c \<Longrightarrow> \<not> is_digit c"
  by (simp add: is_upper_def is_digit_def)

lemma of_char_A: "(of_char CHR ''A'' :: nat) = 65"
  by code_simp

lemma char_to_numeric_spec:
  "is_base_char c \<Longrightarrow> char_to_numeric c = Inr (spec_numeral c)"
  unfolding char_to_numeric_def spec_numeral_def of_char_A is_base_char_def
  by (auto simp: upper_not_digit add.commute)

lemma numericString_spec:
  "list_all is_base_char base \<Longrightarrow> numericString base = Inr (concat (map spec_numeral base))"
  by (induction base) (simp_all add: char_to_numeric_spec)

lemma weight_alt:
  "weight p d = (if p mod 2 = 1
                   then (let digit = d * 2
                         in if digit > 9 then digit div 10 + digit mod 10 else digit)
                   else d)"
  by (simp add: weight_def spec_reduce_def Let_def odd_iff_mod_2_eq_one mult.commute)

text \<open>The loop adds, for every index, the weight of the digit at its position from the right.\<close>

lemma luhn_loop_sum:
  "luhn_loop ds k acc = acc + (\<Sum>i<k. weight (length ds - i) (ds ! i))"
proof (induction k arbitrary: acc)
  case 0
  show ?case by simp
next
  case (Suc k)
  have "luhn_loop ds (Suc k) acc = luhn_loop ds k (acc + weight (length ds - k) (ds ! k))"
    by (simp only: luhn_loop.simps weight_alt Let_def)
  then show ?case by (simp add: Suc.IH)
qed

lemma from_right_sum:
  "sum_list (map (\<lambda>(p, d). if odd p then spec_reduce d else d)
        (zip [1 ..< Suc (length ds)] (rev ds)))
   = (\<Sum>i<length ds. weight (length ds - i) (ds ! i))"
proof -
  let ?n = "length ds"
  let ?zs = "zip [1 ..< Suc ?n] (rev ds)"
  have len: "length ?zs = ?n" by (cases ds) (simp_all del: upt_Suc)
  have nth: "?zs ! j = (Suc j, rev ds ! j)" if "j < ?n" for j
    using that by (simp del: upt_Suc)
  have "sum_list (map (\<lambda>(p, d). if odd p then spec_reduce d else d) ?zs)
        = (\<Sum>j = 0..<?n. case ?zs ! j of (p, d) \<Rightarrow> if odd p then spec_reduce d else d)"
    unfolding sum_list_sum_nth length_map len
    by (rule sum.cong) (simp_all add: len del: upt_Suc)
  also have "\<dots> = (\<Sum>j<?n. weight (Suc j) (rev ds ! j))"
    unfolding lessThan_atLeast0
    by (rule sum.cong) (simp_all add: nth weight_def del: upt_Suc)
  also have "\<dots> = (\<Sum>j<?n. weight (?n - (?n - Suc j)) (ds ! (?n - Suc j)))"
    by (rule sum.cong) (auto simp: rev_nth)
  also have "\<dots> = (\<Sum>i<?n. weight (?n - i) (ds ! i))"
    by (rule sum.nat_diff_reindex)
  finally show ?thesis .
qed

lemma computeIsinCheckDigit_spec:
  assumes "length base = 11" and "list_all is_base_char base"
  shows "computeIsinCheckDigit base = Inr (spec_check_digit base)"
proof -
  let ?ds = "map Number_digit (concat (map spec_numeral base))"
  have "luhn_loop ?ds (length ?ds) 0 =
        sum_list (map (\<lambda>(p, d). if odd p then spec_reduce d else d)
          (zip [1 ..< Suc (length ?ds)] (rev ?ds)))"
    by (simp only: luhn_loop_sum from_right_sum add_0)
  then show ?thesis
    using assms
    by (simp add: computeIsinCheckDigit_def spec_check_digit_def numericString_spec Let_def
        del: upt_Suc)
qed

text \<open>
  C1. On every 11-character string of ASCII digits and uppercase letters,
  \<open>computeIsinCheckDigit\<close> returns the digit the specification's procedure prescribes
  (numerals concatenated, digits at odd positions from the right doubled and reduced,
  everything summed, \<open>(10 - sum mod 10) mod 10\<close>); and the three literal values hold.
\<close>

theorem computeCheckDigit_follows_spec:
  "(length base = 11 \<and> list_all is_base_char base \<longrightarrow>
      computeIsinCheckDigit base = Inr (spec_check_digit base))
   \<and> computeIsinCheckDigit ''US037833100'' = Inr 5
   \<and> computeIsinCheckDigit ''US594918104'' = Inr 5
   \<and> computeIsinCheckDigit ''US88160R101'' = Inr 4"
proof -
  have "computeIsinCheckDigit ''US037833100'' = Inr 5" by code_simp
  moreover have "computeIsinCheckDigit ''US594918104'' = Inr 5" by code_simp
  moreover have "computeIsinCheckDigit ''US88160R101'' = Inr 4" by code_simp
  ultimately show ?thesis using computeIsinCheckDigit_spec by blast
qed

theorem computeCheckDigit_follows_spec_witness:
  "length ''US084670702'' = 11 \<and> list_all is_base_char ''US084670702''
   \<and> computeIsinCheckDigit ''US084670702'' = Inr (spec_check_digit ''US084670702'')
   \<and> spec_check_digit ''US084670702'' = 6"
proof -
  have h: "length ''US084670702'' = 11 \<and> list_all is_base_char ''US084670702''"
    by code_simp
  have v: "spec_check_digit ''US084670702'' = 6" by code_simp
  from computeCheckDigit_follows_spec [of "''US084670702''"] h v show ?thesis by blast
qed

lemma numericString_first_invalid:
  "list_all is_base_char pre \<Longrightarrow> \<not> is_base_char c \<Longrightarrow>
   numericString (pre @ c # post) = Inl (InvalidCharacterError c)"
  by (induction pre) (auto simp: char_to_numeric_spec char_to_numeric_def is_base_char_def)

text \<open>
  C8, as stated: every input that violates the precondition fails with an invalid-character
  error. A 10-character base fails with the length error instead.
\<close>

theorem computeCheckDigit_length_counterexample:
  "length ''US03783310'' \<noteq> 11 \<and> computeIsinCheckDigit ''US03783310'' = Inl BaseLengthError"
  by code_simp

text \<open>
  C8, amended: \<open>computeIsinCheckDigit\<close> fails on every input that violates the precondition,
  with the length error when the input is not 11 characters long, and with the
  invalid-character error naming the first offending character when it is 11 characters
  long and holds a character that is neither an ASCII digit nor an ASCII uppercase letter.
\<close>

theorem computeCheckDigit_precondition_errors:
  "(length base \<noteq> 11 \<longrightarrow> computeIsinCheckDigit base = Inl BaseLengthError)
   \<and> (length base = 11 \<and> \<not> list_all is_base_char base \<longrightarrow>
        (\<exists>pre c post. base = pre @ c # post \<and> list_all is_base_char pre \<and> \<not> is_base_char c
           \<and> computeIsinCheckDigit base = Inl (InvalidCharacterError c)))"
proof (intro conjI impI)
  assume "length base \<noteq> 11"
  then show "computeIsinCheckDigit base = Inl BaseLengthError"
    by (simp add: computeIsinCheckDigit_def)
next
  assume a: "length base = 11 \<and> \<not> list_all is_base_char base"
  then have "\<exists>x\<in>set base. \<not> is_base_char x" by (simp add: list_all_iff)
  from split_list_first_prop [OF this] obtain pre c post where
    split: "base = pre @ c # post" "\<not> is_base_char c" "\<forall>y\<in>set pre. \<not> \<not> is_base_char y"
    by blast
  then have pre: "list_all is_base_char pre" by (simp add: list_all_iff)
  have "computeIsinCheckDigit base = Inl (InvalidCharacterError c)"
    using a numericString_first_invalid [OF pre split(2), of post] split(1)
    by (simp add: computeIsinCheckDigit_def)
  with split pre show "\<exists>pre c post. base = pre @ c # post \<and> list_all is_base_char pre
      \<and> \<not> is_base_char c \<and> computeIsinCheckDigit base = Inl (InvalidCharacterError c)"
    by blast
qed

theorem computeCheckDigit_precondition_errors_witness:
  "length ''US03783310'' \<noteq> 11 \<and> computeIsinCheckDigit ''US03783310'' = Inl BaseLengthError
   \<and> length ''US0378331!0'' = 11 \<and> \<not> list_all is_base_char ''US0378331!0''
   \<and> (\<exists>pre c post. ''US0378331!0'' = pre @ c # post \<and> list_all is_base_char pre
         \<and> \<not> is_base_char c
         \<and> computeIsinCheckDigit ''US0378331!0'' = Inl (InvalidCharacterError c))"
proof -
  have h1: "length ''US03783310'' \<noteq> 11" by simp
  have h2: "length ''US0378331!0'' = 11 \<and> \<not> list_all is_base_char ''US0378331!0''"
    by code_simp
  from computeCheckDigit_precondition_errors [of "''US03783310''"]
       computeCheckDigit_precondition_errors [of "''US0378331!0''"] h1 h2
  show ?thesis by blast
qed

lemma spec_check_digit_less: "spec_check_digit base < 10"
  by (simp add: spec_check_digit_def Let_def del: upt_Suc)

lemma toString_digit: "d < 10 \<Longrightarrow> toString d = [digit_char d]"
  by (simp add: toString.simps)

lemma is_digit_digit_char: "d < 10 \<Longrightarrow> is_digit (digit_char d)"
  by (simp add: is_digit_def digit_char_def)

lemma parseInt_digit_char: "d < 10 \<Longrightarrow> parseInt_char (digit_char d) = Some d"
  by (simp add: parseInt_char_def is_digit_def digit_char_def)

lemma toUpperCase_length: "length (toUpperCase s) = length s"
  by (simp add: toUpperCase_def)

lemma toUpperCase_base_chars:
  "list_all is_alnum_i s \<Longrightarrow> list_all is_base_char (toUpperCase s)"
  by (induction s)
     (auto simp: toUpperCase_def is_alnum_i_def is_base_char_def is_lower_def is_upper_def
        is_digit_def)

lemma is_upper_US: "is_upper CHR ''U'' \<and> is_upper CHR ''S''"
  by code_simp

text \<open>
  C7. \<open>validateIsin\<close> is total and returns a structured result on every string: the only
  call that can throw, \<open>computeIsinCheckDigit\<close>, sits inside the \<^verbatim>\<open>try\<close> block and its error
  becomes the result's reason. Each failure class has its own reason: a length other than
  12, a country code that is not two uppercase letters, a trailing character that is not a
  digit, and a check digit that differs from the computed one. The result is valid exactly
  when it carries no reason, the four reasons are pairwise different, and
  \<open>US0378331006\<close> is rejected for its check digit.
\<close>

theorem validateIsin_reasons:
  "(length s \<noteq> 12 \<longrightarrow>
      validateIsin s = \<lparr>valid = False, error = Some ''ISIN must be exactly 12 characters''\<rparr>)
   \<and> (length s = 12 \<and> \<not> list_all is_upper (take 2 s) \<longrightarrow>
      validateIsin s = \<lparr>valid = False,
        error = Some ''ISIN must start with 2 uppercase letters (country code)''\<rparr>)
   \<and> (length s = 12 \<and> list_all is_upper (take 2 s) \<and> \<not> is_digit (s ! 11) \<longrightarrow>
      validateIsin s = \<lparr>valid = False, error = Some ''Check digit must be a number''\<rparr>)
   \<and> (length s = 12 \<and> list_all is_upper (take 2 s) \<and> is_digit (s ! 11)
        \<and> list_all is_base_char (take 11 s)
        \<and> spec_check_digit (take 11 s) \<noteq> Number_digit (s ! 11) \<longrightarrow>
      validateIsin s = \<lparr>valid = False, error = Some ''Invalid check digit''\<rparr>)
   \<and> (valid (validateIsin s) \<longleftrightarrow> error (validateIsin s) = None)
   \<and> distinct [''ISIN must be exactly 12 characters'',
        ''ISIN must start with 2 uppercase letters (country code)'',
        ''Check digit must be a number'', ''Invalid check digit'']
   \<and> validateIsin ''US0378331006'' = \<lparr>valid = False, error = Some ''Invalid check digit''\<rparr>"
proof (intro conjI impI)
  show "validateIsin ''US0378331006'' = \<lparr>valid = False, error = Some ''Invalid check digit''\<rparr>"
    by code_simp
  show "distinct [''ISIN must be exactly 12 characters'',
        ''ISIN must start with 2 uppercase letters (country code)'',
        ''Check digit must be a number'', ''Invalid check digit'']"
    by simp
  show "valid (validateIsin s) \<longleftrightarrow> error (validateIsin s) = None"
    by (simp add: validateIsin_def Let_def split: option.splits sum.splits)
next
  assume "length s \<noteq> 12"
  then show "validateIsin s = \<lparr>valid = False, error = Some ''ISIN must be exactly 12 characters''\<rparr>"
    by (simp add: validateIsin_def)
next
  assume "length s = 12 \<and> \<not> list_all is_upper (take 2 s)"
  then show "validateIsin s = \<lparr>valid = False,
        error = Some ''ISIN must start with 2 uppercase letters (country code)''\<rparr>"
    by (simp add: validateIsin_def Let_def)
next
  assume "length s = 12 \<and> list_all is_upper (take 2 s) \<and> \<not> is_digit (s ! 11)"
  then show "validateIsin s = \<lparr>valid = False, error = Some ''Check digit must be a number''\<rparr>"
    by (simp add: validateIsin_def Let_def parseInt_char_def)
next
  assume a: "length s = 12 \<and> list_all is_upper (take 2 s) \<and> is_digit (s ! 11)
        \<and> list_all is_base_char (take 11 s)
        \<and> spec_check_digit (take 11 s) \<noteq> Number_digit (s ! 11)"
  then have "computeIsinCheckDigit (take 11 s) = Inr (spec_check_digit (take 11 s))"
    by (intro computeIsinCheckDigit_spec) simp_all
  with a show "validateIsin s = \<lparr>valid = False, error = Some ''Invalid check digit''\<rparr>"
    by (simp add: validateIsin_def Let_def parseInt_char_def Number_digit_def)
qed

theorem validateIsin_reasons_witness:
  "validateIsin ''US037833100'' =
      \<lparr>valid = False, error = Some ''ISIN must be exactly 12 characters''\<rparr>
   \<and> validateIsin ''us0378331005'' = \<lparr>valid = False,
        error = Some ''ISIN must start with 2 uppercase letters (country code)''\<rparr>
   \<and> validateIsin ''US037833100X'' =
      \<lparr>valid = False, error = Some ''Check digit must be a number''\<rparr>
   \<and> validateIsin ''US0378331007'' = \<lparr>valid = False, error = Some ''Invalid check digit''\<rparr>
   \<and> valid (validateIsin ''US0378331005'')"
proof -
  have h1: "length ''US037833100'' \<noteq> 12" by simp
  have h2: "length ''us0378331005'' = 12 \<and> \<not> list_all is_upper (take 2 ''us0378331005'')"
    by code_simp
  have h3: "length ''US037833100X'' = 12 \<and> list_all is_upper (take 2 ''US037833100X'')
        \<and> \<not> is_digit (''US037833100X'' ! 11)"
    by code_simp
  have h4: "length ''US0378331007'' = 12 \<and> list_all is_upper (take 2 ''US0378331007'')
        \<and> is_digit (''US0378331007'' ! 11) \<and> list_all is_base_char (take 11 ''US0378331007'')
        \<and> spec_check_digit (take 11 ''US0378331007'') \<noteq> Number_digit (''US0378331007'' ! 11)"
    by code_simp
  have h5: "error (validateIsin ''US0378331005'') = None" by code_simp
  note r1 = validateIsin_reasons [of "''US037833100''", THEN conjunct1, THEN mp, OF h1]
  note r2 = validateIsin_reasons [of "''us0378331005''", THEN conjunct2, THEN conjunct1,
      THEN mp, OF h2]
  note r3 = validateIsin_reasons [of "''US037833100X''", THEN conjunct2, THEN conjunct2,
      THEN conjunct1, THEN mp, OF h3]
  note r4 = validateIsin_reasons [of "''US0378331007''", THEN conjunct2, THEN conjunct2,
      THEN conjunct2, THEN conjunct1, THEN mp, OF h4]
  note r5 = validateIsin_reasons [of "''US0378331005''", THEN conjunct2, THEN conjunct2,
      THEN conjunct2, THEN conjunct2, THEN conjunct1, THEN iffD2, OF h5]
  from r1 r2 r3 r4 r5 show ?thesis by (intro conjI)
qed

text \<open>
  C4. For every 9-character alphanumeric CUSIP, in any letter case, \<open>cusipToIsin\<close> returns
  \<open>US\<close>, the uppercased CUSIP and the check digit of the specification's procedure, and
  \<open>validateIsin\<close> accepts that ISIN.
\<close>

theorem cusipToIsin_round_trip:
  assumes "length C = 9" and "list_all is_alnum_i C"
  shows "cusipToIsin C =
           Inr (''US'' @ toUpperCase C @ [digit_char (spec_check_digit (''US'' @ toUpperCase C))])
         \<and> (\<forall>isin. cusipToIsin C = Inr isin \<longrightarrow> validateIsin isin = \<lparr>valid = True, error = None\<rparr>)"
proof -
  let ?base = "''US'' @ toUpperCase C"
  let ?d = "spec_check_digit ?base"
  have len: "length ?base = 11" using assms by (simp add: toUpperCase_length)
  have chars: "list_all is_base_char ?base"
    using assms toUpperCase_base_chars [of C] is_upper_US by (simp add: is_base_char_def)
  have cd: "computeIsinCheckDigit ?base = Inr ?d"
    using len chars by (rule computeIsinCheckDigit_spec)
  have d: "?d < 10" by (rule spec_check_digit_less)
  have ne: "C \<noteq> []" using assms by auto
  have conv: "cusipToIsin C = Inr (?base @ [digit_char ?d])"
    using assms ne cd d by (simp add: cusipToIsin_def Let_def toString_digit)
  have l12: "length (?base @ [digit_char ?d]) = 12" using len by simp
  have t2: "take 2 (?base @ [digit_char ?d]) = ''US''" by simp
  have t11: "take 11 (?base @ [digit_char ?d]) = ?base" using len by simp
  have n11: "(?base @ [digit_char ?d]) ! 11 = digit_char ?d"
    using len by (metis nth_append_length)
  have "validateIsin (?base @ [digit_char ?d]) = \<lparr>valid = True, error = None\<rparr>"
    unfolding validateIsin_def Let_def t2 t11 n11
    using l12 is_upper_US cd d by (simp add: parseInt_digit_char)
  with conv show ?thesis by simp
qed

theorem cusipToIsin_round_trip_witness:
  "length ''88160r101'' = 9 \<and> list_all is_alnum_i ''88160r101''
   \<and> cusipToIsin ''88160r101'' = Inr ''US88160R1014''
   \<and> validateIsin ''US88160R1014'' = \<lparr>valid = True, error = None\<rparr>"
proof -
  have h1: "length ''88160r101'' = 9" by simp
  have h2: "list_all is_alnum_i ''88160r101''" by code_simp
  have v: "''US'' @ toUpperCase ''88160r101'' @
      [digit_char (spec_check_digit (''US'' @ toUpperCase ''88160r101''))] = ''US88160R1014''"
    by code_simp
  note r = cusipToIsin_round_trip [OF h1 h2]
  have c: "cusipToIsin ''88160r101'' = Inr ''US88160R1014''"
    using r [THEN conjunct1] unfolding v .
  have "validateIsin ''US88160R1014'' = \<lparr>valid = True, error = None\<rparr>"
    using r [THEN conjunct2, THEN spec, THEN mp, OF c] .
  with h1 h2 c show ?thesis by (intro conjI)
qed

section \<open>Verified properties of the client\<close>

lemma map_of_has_property: "map_of props k = Some v \<Longrightarrow> has_property (JObject props) k"
  by (simp add: map_of_eq_Some_iff weak_map_of_SomeI image_iff) (metis fst_conv map_of_SomeD)

text \<open>
  C10. Once the API key has passed its check and the request has been answered,
  \<open>fetchTickerProfile\<close> fails with the rate-limit error, whose name differs from the generic
  client error's, both when the status is 429 and when a response with status 200 carries
  a one-element array whose element has a string property \<open>message\<close> containing
  \<open>rate limit\<close>; in both cases the result is the error, not a security record.
\<close>

theorem fetchTickerProfile_rate_limit:
  assumes "\<not> apiKey_missing apiKey"
  shows "(status r = 429 \<longrightarrow>
            fetchTickerProfile tk apiKey (Resolved r) = Inl (FmpRateLimitError RATE_LIMIT_MESSAGE))
       \<and> (status r = 200 \<and> json_body r = Inr (JArray [JObject props])
            \<and> map_of props ''message'' = Some (JString m) \<and> str_includes m ''rate limit'' \<longrightarrow>
            fetchTickerProfile tk apiKey (Resolved r) = Inl (FmpRateLimitError RATE_LIMIT_MESSAGE))
       \<and> error_name (FmpRateLimitError RATE_LIMIT_MESSAGE) = ''FmpRateLimitError''
       \<and> error_name (FmpRateLimitError RATE_LIMIT_MESSAGE) \<noteq> error_name (FmpApiError msg code)"
proof (intro conjI impI)
  assume "status r = 429"
  with assms show "fetchTickerProfile tk apiKey (Resolved r) = Inl (FmpRateLimitError RATE_LIMIT_MESSAGE)"
    by (simp add: fetchTickerProfile_def response_ok_def)
next
  assume a: "status r = 200 \<and> json_body r = Inr (JArray [JObject props])
            \<and> map_of props ''message'' = Some (JString m) \<and> str_includes m ''rate limit''"
  then have "is_rate_limit_body [JObject props]"
    using map_of_has_property [of props "''message''" "JString m"]
    by (simp add: is_rate_limit_body_def)
  with assms a show "fetchTickerProfile tk apiKey (Resolved r) = Inl (FmpRateLimitError RATE_LIMIT_MESSAGE)"
    by (simp add: fetchTickerProfile_def response_ok_def)
qed simp_all

theorem fetchTickerProfile_rate_limit_witness:
  "\<not> apiKey_missing ''demo''
   \<and> fetchTickerProfile ''AAPL'' ''demo''
       (Resolved \<lparr>status = 429, statusText = ''Too Many Requests'', json_body = Inl ''''\<rparr>)
     = Inl (FmpRateLimitError RATE_LIMIT_MESSAGE)
   \<and> fetchTickerProfile ''AAPL'' ''demo''
       (Resolved \<lparr>status = 200, statusText = ''OK'',
          json_body = Inr (JArray [JObject [(''message'', JString ''You hit the rate limit'')]])\<rparr>)
     = Inl (FmpRateLimitError RATE_LIMIT_MESSAGE)"
proof -
  let ?r1 = "\<lparr>status = 429, statusText = ''Too Many Requests'', json_body = Inl ''''\<rparr>"
  let ?props = "[(''message'', JString ''You hit the rate limit'')]"
  let ?r2 = "\<lparr>status = 200, statusText = ''OK'', json_body = Inr (JArray [JObject ?props])\<rparr>"
  have k: "\<not> apiKey_missing ''demo''" by code_simp
  have h1: "status ?r1 = 429" by simp
  have h2: "status ?r2 = 200 \<and> json_body ?r2 = Inr (JArray [JObject ?props])
      \<and> map_of ?props ''message'' = Some (JString ''You hit the rate limit'')
      \<and> str_includes ''You hit the rate limit'' ''rate limit''"
    by code_simp
  note r1 = fetchTickerProfile_rate_limit [OF k, where r = ?r1 and tk = "''AAPL''",
      THEN conjunct1, THEN mp, OF h1]
  note r2 = fetchTickerProfile_rate_limit [OF k, where r = ?r2 and props = ?props
      and m = "''You hit the rate limit''" and tk = "''AAPL''",
      THEN conjunct2, THEN conjunct1, THEN mp, OF h2]
  from k r1 r2 show ?thesis by (intro conjI)
qed

section \<open>Verified properties of the store\<close>

subsection \<open>The upsert of one identifier table\<close>

lemma ocu_present:
  "k \<in> set (map key_value tbl) \<Longrightarrow>
   on_conflict_do_update tbl sid k src ts =
     map (\<lambda>r. if key_value r = k
               then r\<lparr>security_id := sid, row_source := src, row_fetched_at := ts\<rparr>
               else r) tbl"
  by (simp only: on_conflict_do_update_def if_True)

lemma ocu_absent:
  "k \<notin> set (map key_value tbl) \<Longrightarrow>
   on_conflict_do_update tbl sid k src ts =
     tbl @ [\<lparr>security_id = sid, key_value = k, row_source = src, row_fetched_at = ts\<rparr>]"
  by (simp only: on_conflict_do_update_def if_False)

lemma ocu_keys:
  "map key_value (on_conflict_do_update tbl sid k src ts) =
     (if k \<in> set (map key_value tbl) then map key_value tbl else map key_value tbl @ [k])"
proof (cases "k \<in> set (map key_value tbl)")
  case True
  have "map key_value (map (\<lambda>r. if key_value r = k
               then r\<lparr>security_id := sid, row_source := src, row_fetched_at := ts\<rparr>
               else r) tbl) = map key_value tbl"
    by (induction tbl) simp_all
  with True show ?thesis by (simp only: ocu_present if_True)
next
  case False
  then show ?thesis by (simp add: ocu_absent)
qed

lemma ocu_length:
  "length (on_conflict_do_update tbl sid k src ts) =
     (if k \<in> set (map key_value tbl) then length tbl else Suc (length tbl))"
  using arg_cong [OF ocu_keys [of tbl sid k src ts], of length]
  by (simp split: if_splits)

lemma ocu_distinct:
  "distinct (map key_value tbl) \<Longrightarrow>
   distinct (map key_value (on_conflict_do_update tbl sid k src ts))"
  by (simp add: ocu_keys)

lemma select_map_update_same:
  "select_security_id
     (map (\<lambda>r. if key_value r = k
                then r\<lparr>security_id := sid, row_source := src, row_fetched_at := ts\<rparr>
                else r) tbl) k =
   map_option (\<lambda>_. sid) (select_security_id tbl k)"
  unfolding select_security_id_def by (induction tbl) simp_all

lemma select_map_update_other:
  "k' \<noteq> k \<Longrightarrow>
   select_security_id
     (map (\<lambda>r. if key_value r = k
                then r\<lparr>security_id := sid, row_source := src, row_fetched_at := ts\<rparr>
                else r) tbl) k' =
   select_security_id tbl k'"
  unfolding select_security_id_def by (induction tbl) simp_all

lemma select_append_single:
  "select_security_id (tbl @ [r]) k' =
     (case select_security_id tbl k' of
        Some i \<Rightarrow> Some i
      | None \<Rightarrow> if key_value r = k' then Some (security_id r) else None)"
  unfolding select_security_id_def by (induction tbl) simp_all

lemma select_None_iff:
  "select_security_id tbl k = None \<longleftrightarrow> k \<notin> set (map key_value tbl)"
  unfolding select_security_id_def by (induction tbl) auto

lemma select_SomeD:
  "select_security_id tbl k = Some i \<Longrightarrow> \<exists>r \<in> set tbl. security_id r = i \<and> key_value r = k"
  unfolding select_security_id_def by (induction tbl) (auto split: if_splits)

lemma select_ocu_hit:
  "select_security_id (on_conflict_do_update tbl sid k src ts) k = Some sid"
proof (cases "k \<in> set (map key_value tbl)")
  case False
  then have "select_security_id tbl k = None" using select_None_iff [of tbl k] by blast
  with False show ?thesis by (simp add: ocu_absent select_append_single)
next
  case True
  then have "select_security_id tbl k \<noteq> None" using select_None_iff [of tbl k] by blast
  with True show ?thesis by (auto simp add: ocu_present select_map_update_same)
qed

lemma select_ocu_other:
  "k' \<noteq> k \<Longrightarrow>
   select_security_id (on_conflict_do_update tbl sid k src ts) k' = select_security_id tbl k'"
  by (cases "k \<in> set (map key_value tbl)")
     (simp_all add: ocu_present ocu_absent select_map_update_other select_append_single
        split: option.splits)

lemma ocu_row_k:
  assumes "r \<in> set (on_conflict_do_update tbl sid k src ts)" and "key_value r = k"
  shows "r = \<lparr>security_id = sid, key_value = k, row_source = src, row_fetched_at = ts\<rparr>"
proof (cases "k \<in> set (map key_value tbl)")
  case True
  with assms(1) obtain r0 where r0: "r0 \<in> set tbl"
    "r = (if key_value r0 = k
          then r0\<lparr>security_id := sid, row_source := src, row_fetched_at := ts\<rparr> else r0)"
    by (auto simp add: ocu_present)
  with assms(2) have "key_value r0 = k" by (simp split: if_splits)
  with r0(2) have "r = r0\<lparr>security_id := sid, row_source := src, row_fetched_at := ts\<rparr>"
    and "key_value r0 = k" by simp_all
  then show ?thesis by (intro identifier_row.equality) simp_all
next
  case False
  with assms(1) have "r \<in> set tbl \<or>
      r = \<lparr>security_id = sid, key_value = k, row_source = src, row_fetched_at = ts\<rparr>"
    by (simp add: ocu_absent) blast
  with False assms(2) show ?thesis by auto
qed

lemma ocu_row_other:
  assumes "r \<in> set (on_conflict_do_update tbl sid k src ts)" and "key_value r \<noteq> k"
  shows "r \<in> set tbl"
proof (cases "k \<in> set (map key_value tbl)")
  case True
  with assms(1) obtain r0 where r0: "r0 \<in> set tbl"
    "r = (if key_value r0 = k
          then r0\<lparr>security_id := sid, row_source := src, row_fetched_at := ts\<rparr> else r0)"
    by (auto simp add: ocu_present)
  with assms(2) have "r = r0" by (simp split: if_splits)
  with r0 show ?thesis by simp
next
  case False
  with assms show ?thesis by (auto simp add: ocu_absent)
qed

lemma ocu_security_ids:
  "r \<in> set (on_conflict_do_update tbl sid k src ts) \<Longrightarrow>
   security_id r = sid \<or> r \<in> set tbl"
  using ocu_row_k [of r tbl sid k src ts] ocu_row_other [of r tbl sid k src ts]
  by (cases "key_value r = k") simp_all

subsection \<open>Row identities, the securities table and the four upserts\<close>

lemma fold_max_ge: "(a::int) \<le> fold max xs a"
  by (induction xs arbitrary: a) (auto intro: order_trans [OF max.cobounded2])

lemma fold_max_mem: "(x::int) \<in> set xs \<Longrightarrow> x \<le> fold max xs a"
proof (induction xs arbitrary: a)
  case Nil
  then show ?case by simp
next
  case (Cons y ys)
  show ?case
  proof (cases "x = y")
    case True
    have "y \<le> max y a" by simp
    also have "\<dots> \<le> fold max ys (max y a)" by (rule fold_max_ge)
    finally show ?thesis using True by simp
  next
    case False
    with Cons show ?thesis by simp
  qed
qed

lemma next_rowid_fresh: "next_rowid db \<notin> set (ids db)"
proof
  assume "next_rowid db \<in> set (ids db)"
  then have "next_rowid db \<le> fold max (ids db) 0" by (rule fold_max_mem)
  then show False by (simp add: next_rowid_def)
qed

lemma next_rowid_pos: "0 < next_rowid db"
  using fold_max_ge [of 0 "ids db"] by (simp add: next_rowid_def)

lemma create_or_update_found:
  "\<not> falsy_id (Some i) \<Longrightarrow>
   create_or_update db r ts (Some i) =
     (i, db\<lparr>securities := map (update_security r ts i) (securities db)\<rparr>)"
  by (simp add: create_or_update_def update_security_def [abs_def])

lemma create_or_update_new:
  "falsy_id x \<Longrightarrow>
   create_or_update db r ts x =
     (next_rowid db,
      db\<lparr>securities := securities db @ [new_security r ts (next_rowid db)],
         sqlite_sequence := next_rowid db\<rparr>)"
  by (simp add: create_or_update_def Let_def new_security_def)

lemma ids_update_security:
  "map s_id (map (update_security r ts i) rows) = map s_id rows"
  by (induction rows) (simp_all add: update_security_def)

lemma upsert_optional_Inr:
  "sid \<in> set (ids db) \<Longrightarrow>
   upsert_optional db tbl sid v src ts = Inr (on_conflict_optional tbl sid v src ts)"
  by (simp add: upsert_optional_def on_conflict_optional_def upsert_identifier_def
      split: option.splits)

lemma insertSecurity_Inr:
  assumes "create_or_update db r ts (find_existing db r) = (sid, db1)"
    and "sid \<in> set (ids db1)"
  shows "insertSecurity db r ts = Inr (sid, with_identifiers db1 sid r ts)"
  using assms
  by (simp add: insertSecurity_def upsert_optional_Inr upsert_identifier_def
      with_identifiers_def)

lemma with_identifiers_simps:
  "securities (with_identifiers db sid r ts) = securities db"
  "sqlite_sequence (with_identifiers db sid r ts) = sqlite_sequence db"
  "ids (with_identifiers db sid r ts) = ids db"
  "identifiers_ticker (with_identifiers db sid r ts) =
     on_conflict_do_update (identifiers_ticker db) sid (ticker r, exchange r) (source r) ts"
  "identifiers_isin (with_identifiers db sid r ts) =
     on_conflict_optional (identifiers_isin db) sid (isin r) (source r) ts"
  "identifiers_cusip (with_identifiers db sid r ts) =
     on_conflict_optional (identifiers_cusip db) sid (cusip r) (source r) ts"
  "identifiers_cik (with_identifiers db sid r ts) =
     on_conflict_optional (identifiers_cik db) sid (cik r) (source r) ts"
  by (simp_all add: with_identifiers_def ids_def)

lemma oco_distinct:
  "distinct (map key_value tbl) \<Longrightarrow>
   distinct (map key_value (on_conflict_optional tbl sid v src ts))"
  by (simp add: on_conflict_optional_def ocu_distinct split: option.splits)

lemma oco_security_ids:
  "r \<in> set (on_conflict_optional tbl sid v src ts) \<Longrightarrow> security_id r = sid \<or> r \<in> set tbl"
  by (auto simp add: on_conflict_optional_def split: option.splits dest: ocu_security_ids)

lemma store_ok_with_identifiers:
  assumes "store_ok db" and "sid \<in> set (ids db)"
  shows "store_ok (with_identifiers db sid r ts)"
proof -
  have fk1: "security_id x \<in> set (ids db)"
    if "x \<in> set (on_conflict_do_update (identifiers_ticker db) sid k src ts)" for x k src
    using ocu_security_ids [OF that] assms by (auto simp: store_ok_def)
  have fk2: "security_id x \<in> set (ids db)"
    if "x \<in> set (on_conflict_optional (identifiers_isin db) sid v src ts)" for x v src
    using oco_security_ids [OF that] assms by (auto simp: store_ok_def)
  have fk3: "security_id x \<in> set (ids db)"
    if "x \<in> set (on_conflict_optional (identifiers_cusip db) sid v src ts)" for x v src
    using oco_security_ids [OF that] assms by (auto simp: store_ok_def)
  have fk4: "security_id x \<in> set (ids db)"
    if "x \<in> set (on_conflict_optional (identifiers_cik db) sid v src ts)" for x v src
    using oco_security_ids [OF that] assms by (auto simp: store_ok_def)
  from assms(1) have d: "distinct (ids db)" "\<forall>i \<in> set (ids db). 0 < i"
    "distinct (map key_value (identifiers_ticker db))"
    "distinct (map key_value (identifiers_isin db))"
    "distinct (map key_value (identifiers_cusip db))"
    "distinct (map key_value (identifiers_cik db))"
    by (simp_all add: store_ok_def)
  show ?thesis
    unfolding store_ok_def with_identifiers_simps
    using d fk1 fk2 fk3 fk4 by (intro conjI ballI ocu_distinct oco_distinct) blast+
qed

lemma store_ok_new_security:
  assumes "store_ok db"
  shows "store_ok (db\<lparr>securities := securities db @ [new_security r ts (next_rowid db)],
                     sqlite_sequence := next_rowid db\<rparr>)"
  using assms next_rowid_fresh [of db] next_rowid_pos [of db]
  by (simp add: store_ok_def ids_def new_security_def)

lemma store_ok_update_security:
  assumes "store_ok db"
  shows "store_ok (db\<lparr>securities := map (update_security r ts i) (securities db)\<rparr>)"
  using assms by (simp add: store_ok_def ids_def ids_update_security del: map_map)

subsection \<open>The probes, and what a call returns\<close>

lemma store_ok_select_ticker:
  "store_ok db \<Longrightarrow> select_security_id (identifiers_ticker db) k = Some i \<Longrightarrow>
   i \<in> set (ids db) \<and> 0 < i"
  unfolding store_ok_def by (blast dest: select_SomeD)

lemma store_ok_select_isin:
  "store_ok db \<Longrightarrow> select_security_id (identifiers_isin db) k = Some i \<Longrightarrow>
   i \<in> set (ids db) \<and> 0 < i"
  unfolding store_ok_def by (blast dest: select_SomeD)

lemma store_ok_select_cusip:
  "store_ok db \<Longrightarrow> select_security_id (identifiers_cusip db) k = Some i \<Longrightarrow>
   i \<in> set (ids db) \<and> 0 < i"
  unfolding store_ok_def by (blast dest: select_SomeD)

lemma first_match_simps:
  "first_match [] = None"
  "first_match (None # ps) = first_match ps"
  "first_match (Some i # ps) = Some i"
  by (simp_all add: first_match_def)

lemma find_existing_first_match:
  assumes "store_ok db"
  shows "find_existing db r = first_match (probes db r)"
proof -
  let ?t = "select_security_id (identifiers_ticker db) (ticker r, exchange r)"
  let ?i = "case or_null (isin r) of
         None \<Rightarrow> None | Some v \<Rightarrow> select_security_id (identifiers_isin db) v"
  let ?c = "case or_null (cusip r) of
         None \<Rightarrow> None | Some v \<Rightarrow> select_security_id (identifiers_cusip db) v"
  have t: "\<not> falsy_id ?t" if "?t = Some a" for a
    using store_ok_select_ticker [OF assms that] that by (simp add: falsy_id_def)
  have i: "\<not> falsy_id ?i" if "?i = Some a" for a
    using that store_ok_select_isin [OF assms, of _ a]
    by (auto simp add: falsy_id_def split: option.splits)
  have p: "probes db r = [?t, ?i, ?c]" by (simp add: probes_def)
  show ?thesis
  proof (cases ?t)
    case (Some a)
    with t [OF Some] show ?thesis
      unfolding p by (simp add: find_existing_def Let_def first_match_simps)
  next
    case tNone: None
    show ?thesis
    proof (cases ?i)
      case (Some b)
      with i [OF Some] tNone show ?thesis
        unfolding p
        by (auto simp add: find_existing_def Let_def first_match_simps falsy_id_def
            split: option.splits)
    next
      case iNone: None
      with tNone show ?thesis
        unfolding p
        by (auto simp add: find_existing_def Let_def first_match_simps falsy_id_def
            split: option.splits)
    qed
  qed
qed

lemma find_existing_valid:
  assumes "store_ok db" and "find_existing db r = Some i"
  shows "i \<in> set (ids db) \<and> 0 < i"
proof -
  have "first_match (probes db r) = Some i"
    using assms by (simp add: find_existing_first_match)
  then show ?thesis
    using store_ok_select_ticker [OF assms(1)] store_ok_select_isin [OF assms(1)]
      store_ok_select_cusip [OF assms(1)]
    by (auto simp add: probes_def first_match_def split: option.splits if_splits)
qed

lemma insertSecurity_found:
  assumes "store_ok db" and "find_existing db r = Some i"
  shows "insertSecurity db r ts =
     Inr (i, with_identifiers
               (db\<lparr>securities := map (update_security r ts i) (securities db)\<rparr>) i r ts)"
proof -
  from find_existing_valid [OF assms] have i: "i \<in> set (ids db)" "0 < i" by simp_all
  then have nf: "\<not> falsy_id (Some i)" by (simp add: falsy_id_def)
  let ?db1 = "db\<lparr>securities := map (update_security r ts i) (securities db)\<rparr>"
  have "ids ?db1 = ids db" by (simp add: ids_def ids_update_security del: map_map)
  with i have "i \<in> set (ids ?db1)" by simp
  moreover have "create_or_update db r ts (find_existing db r) = (i, ?db1)"
    using assms(2) nf by (simp add: create_or_update_found)
  ultimately show ?thesis by (rule insertSecurity_Inr [rotated])
qed

lemma insertSecurity_new:
  assumes "find_existing db r = None"
  shows "insertSecurity db r ts =
     Inr (next_rowid db,
          with_identifiers
            (db\<lparr>securities := securities db @ [new_security r ts (next_rowid db)],
                sqlite_sequence := next_rowid db\<rparr>) (next_rowid db) r ts)"
proof -
  let ?db1 = "db\<lparr>securities := securities db @ [new_security r ts (next_rowid db)],
                sqlite_sequence := next_rowid db\<rparr>"
  have "next_rowid db \<in> set (ids ?db1)" by (simp add: ids_def new_security_def)
  moreover have "create_or_update db r ts (find_existing db r) = (next_rowid db, ?db1)"
    using assms by (simp add: create_or_update_new falsy_id_def)
  ultimately show ?thesis by (rule insertSecurity_Inr [rotated])
qed

lemma insertSecurity_total:
  assumes "store_ok db"
  shows "\<exists>sid db'. insertSecurity db r ts = Inr (sid, db')"
  using insertSecurity_found [OF assms, of r] insertSecurity_new [of db r]
  by (cases "find_existing db r") auto

lemma insertSecurity_store_ok:
  assumes "store_ok db" and "insertSecurity db r ts = Inr (sid, db')"
  shows "store_ok db'"
proof (cases "find_existing db r")
  case None
  let ?db1 = "db\<lparr>securities := securities db @ [new_security r ts (next_rowid db)],
                sqlite_sequence := next_rowid db\<rparr>"
  have "store_ok ?db1" using assms(1) by (rule store_ok_new_security)
  moreover have "next_rowid db \<in> set (ids ?db1)" by (simp add: ids_def new_security_def)
  ultimately have "store_ok (with_identifiers ?db1 (next_rowid db) r ts)"
    by (rule store_ok_with_identifiers)
  moreover have "db' = with_identifiers ?db1 (next_rowid db) r ts"
    using assms(2) insertSecurity_new [OF None, of ts] by auto
  ultimately show ?thesis by (simp only:)
next
  case (Some i)
  let ?db1 = "db\<lparr>securities := map (update_security r ts i) (securities db)\<rparr>"
  have "store_ok ?db1" using assms(1) by (rule store_ok_update_security)
  moreover have "i \<in> set (ids ?db1)"
    using find_existing_valid [OF assms(1) Some]
    by (simp add: ids_def ids_update_security del: map_map)
  ultimately have "store_ok (with_identifiers ?db1 i r ts)"
    by (rule store_ok_with_identifiers)
  moreover have "db' = with_identifiers ?db1 i r ts"
    using assms(2) insertSecurity_found [OF assms(1) Some, of ts] by auto
  ultimately show ?thesis by (simp only:)
qed

lemma store_ok_initDatabase: "store_ok initDatabase"
  by (simp add: store_ok_def initDatabase_def ids_def)

text \<open>Every store the code can build from a new one satisfies the schema.\<close>

lemma insert_all_store_ok:
  "store_ok db \<Longrightarrow> insert_all db calls = Inr db' \<Longrightarrow> store_ok db'"
proof (induction calls arbitrary: db)
  case Nil
  then show ?case by simp
next
  case (Cons call calls)
  obtain r ts where call: "call = (r, ts)" by (cases call)
  from Cons.prems(2) obtain sid db1 where
    step: "insertSecurity db r ts = Inr (sid, db1)" and rest: "insert_all db1 calls = Inr db'"
    unfolding call by (auto split: sum.splits)
  from Cons.prems(1) step have "store_ok db1" by (rule insertSecurity_store_ok)
  then show ?case using rest by (rule Cons.IH)
qed

lemma reachable_store_ok:
  "insert_all initDatabase calls = Inr db \<Longrightarrow> store_ok db"
  using store_ok_initDatabase by (rule insert_all_store_ok)

subsection \<open>The example stores are built by the code\<close>

lemma two_securities_built:
  "insert_all initDatabase [(alpha, 1), (beta, 2)] = Inr two_securities"
  by code_simp

lemma relinked_built:
  "insertSecurity two_securities alpha_with_isin 3 = Inr (1, relinked)"
  by code_simp

lemma store_ok_two_securities: "store_ok two_securities"
  by code_simp

lemma apple_store_built:
  "insertSecurity initDatabase (Apple_with_cik ''fmp'') 1 = Inr (1, apple_store)"
  by code_simp

subsection \<open>Resolution order\<close>

lemma oco_select_hit:
  "or_null v = Some k \<Longrightarrow>
   select_security_id (on_conflict_optional tbl sid v src ts) k = Some sid"
  by (simp add: on_conflict_optional_def select_ocu_hit)

lemma insertSecurity_tables:
  assumes "store_ok db" and "insertSecurity db r ts = Inr (sid, db')"
  shows "identifiers_ticker db' =
           on_conflict_do_update (identifiers_ticker db) sid (ticker r, exchange r) (source r) ts"
    and "identifiers_isin db' =
           on_conflict_optional (identifiers_isin db) sid (isin r) (source r) ts"
    and "identifiers_cusip db' =
           on_conflict_optional (identifiers_cusip db) sid (cusip r) (source r) ts"
    and "identifiers_cik db' =
           on_conflict_optional (identifiers_cik db) sid (cik r) (source r) ts"
proof -
  have "identifiers_ticker db' =
           on_conflict_do_update (identifiers_ticker db) sid (ticker r, exchange r) (source r) ts
      \<and> identifiers_isin db' =
           on_conflict_optional (identifiers_isin db) sid (isin r) (source r) ts
      \<and> identifiers_cusip db' =
           on_conflict_optional (identifiers_cusip db) sid (cusip r) (source r) ts
      \<and> identifiers_cik db' =
           on_conflict_optional (identifiers_cik db) sid (cik r) (source r) ts"
  proof (cases "find_existing db r")
    case None
    from assms(2) insertSecurity_new [OF None, of ts] show ?thesis
      by (auto simp add: with_identifiers_simps)
  next
    case (Some i)
    from assms(2) insertSecurity_found [OF assms(1) Some, of ts] show ?thesis
      by (auto simp add: with_identifiers_simps)
  qed
  then show "identifiers_ticker db' =
           on_conflict_do_update (identifiers_ticker db) sid (ticker r, exchange r) (source r) ts"
    and "identifiers_isin db' =
           on_conflict_optional (identifiers_isin db) sid (isin r) (source r) ts"
    and "identifiers_cusip db' =
           on_conflict_optional (identifiers_cusip db) sid (cusip r) (source r) ts"
    and "identifiers_cik db' =
           on_conflict_optional (identifiers_cik db) sid (cik r) (source r) ts"
    by simp_all
qed

text \<open>
  C2. On a store that satisfies its schema, \<open>insertSecurity\<close> returns the identity found by
  the first matching probe in the order (ticker, exchange), ISIN if supplied, CUSIP if
  supplied, and leaves the set of securities as it was; when no probe matches it inserts
  one new securities row and returns its fresh identity. In both cases the identifiers of
  the input point at the returned identity afterwards. An identifier is supplied when it
  is present and not the empty string.
\<close>

theorem upsert_resolution_order:
  assumes "store_ok db"
  shows "\<exists>sid db'. insertSecurity db r ts = Inr (sid, db')
     \<and> (case first_match (probes db r) of
           Some found \<Rightarrow> sid = found \<and> found \<in> set (ids db) \<and> ids db' = ids db
         | None \<Rightarrow> sid = next_rowid db \<and> sid \<notin> set (ids db)
             \<and> securities db' = securities db @ [new_security r ts sid])
     \<and> select_security_id (identifiers_ticker db') (ticker r, exchange r) = Some sid
     \<and> (\<forall>v. or_null (isin r) = Some v \<longrightarrow>
            select_security_id (identifiers_isin db') v = Some sid)
     \<and> (\<forall>v. or_null (cusip r) = Some v \<longrightarrow>
            select_security_id (identifiers_cusip db') v = Some sid)"
proof -
  obtain sid db' where ins: "insertSecurity db r ts = Inr (sid, db')"
    using insertSecurity_total [OF assms] by blast
  note tables = insertSecurity_tables [OF assms ins]
  have fm: "first_match (probes db r) = find_existing db r"
    using assms by (simp add: find_existing_first_match)
  have res: "case find_existing db r of
           Some found \<Rightarrow> sid = found \<and> found \<in> set (ids db) \<and> ids db' = ids db
         | None \<Rightarrow> sid = next_rowid db \<and> sid \<notin> set (ids db)
             \<and> securities db' = securities db @ [new_security r ts sid]"
  proof (cases "find_existing db r")
    case None
    from ins insertSecurity_new [OF None, of ts] next_rowid_fresh [of db] None
    show ?thesis by (auto simp add: with_identifiers_simps)
  next
    case (Some i)
    from ins insertSecurity_found [OF assms Some, of ts] find_existing_valid [OF assms Some] Some
    show ?thesis
      by (auto simp add: with_identifiers_simps ids_def ids_update_security simp del: map_map)
  qed
  have "select_security_id (identifiers_ticker db') (ticker r, exchange r) = Some sid"
    by (simp add: tables select_ocu_hit)
  moreover have "\<forall>v. or_null (isin r) = Some v \<longrightarrow>
            select_security_id (identifiers_isin db') v = Some sid"
    by (simp add: tables oco_select_hit)
  moreover have "\<forall>v. or_null (cusip r) = Some v \<longrightarrow>
            select_security_id (identifiers_cusip db') v = Some sid"
    by (simp add: tables oco_select_hit)
  ultimately show ?thesis using ins res unfolding fm by blast
qed

theorem upsert_resolution_order_witness:
  "store_ok two_securities
   \<and> select_security_id (identifiers_isin two_securities) ''US0378331005'' = Some 2
   \<and> first_match (probes two_securities alpha_with_isin) = Some 1
   \<and> (\<exists>db'. insertSecurity two_securities alpha_with_isin 3 = Inr (1, db')
         \<and> ids db' = ids two_securities)
   \<and> store_ok initDatabase
   \<and> first_match (probes initDatabase (Apple ''fmp'')) = None
   \<and> (\<exists>db'. insertSecurity initDatabase (Apple ''fmp'') 100 = Inr (1, db')
         \<and> length (securities db') = 1)"
proof -
  have ok: "store_ok two_securities" by code_simp
  have isin: "select_security_id (identifiers_isin two_securities) ''US0378331005'' = Some 2"
    by code_simp
  have fm: "first_match (probes two_securities alpha_with_isin) = Some 1" by code_simp
  obtain sid db' where
    a: "insertSecurity two_securities alpha_with_isin 3 = Inr (sid, db')"
    and b: "case first_match (probes two_securities alpha_with_isin) of
           Some found \<Rightarrow> sid = found \<and> found \<in> set (ids two_securities)
             \<and> ids db' = ids two_securities
         | None \<Rightarrow> sid = next_rowid two_securities \<and> sid \<notin> set (ids two_securities)
             \<and> securities db' = securities two_securities @ [new_security alpha_with_isin 3 sid]"
    using upsert_resolution_order [OF ok, of alpha_with_isin 3] by blast
  from b have "sid = 1" "ids db' = ids two_securities" unfolding fm by simp_all
  with a have found: "\<exists>db'. insertSecurity two_securities alpha_with_isin 3 = Inr (1, db')
         \<and> ids db' = ids two_securities" by blast
  have ok0: "store_ok initDatabase" by code_simp
  have fm0: "first_match (probes initDatabase (Apple ''fmp'')) = None" by code_simp
  have n0: "next_rowid initDatabase = 1" by code_simp
  have s0: "securities initDatabase = []" by (simp add: initDatabase_def)
  obtain sid0 db0 where
    a0: "insertSecurity initDatabase (Apple ''fmp'') 100 = Inr (sid0, db0)"
    and b0: "case first_match (probes initDatabase (Apple ''fmp'')) of
           Some found \<Rightarrow> sid0 = found \<and> found \<in> set (ids initDatabase)
             \<and> ids db0 = ids initDatabase
         | None \<Rightarrow> sid0 = next_rowid initDatabase \<and> sid0 \<notin> set (ids initDatabase)
             \<and> securities db0 = securities initDatabase @ [new_security (Apple ''fmp'') 100 sid0]"
    using upsert_resolution_order [OF ok0, of "Apple ''fmp''" 100] by blast
  from b0 have "sid0 = 1" "length (securities db0) = 1" unfolding fm0 n0 s0 by simp_all
  with a0 have new: "\<exists>db'. insertSecurity initDatabase (Apple ''fmp'') 100 = Inr (1, db')
         \<and> length (securities db') = 1" by blast
  from ok isin fm found ok0 fm0 new show ?thesis by (intro conjI)
qed

subsection \<open>Idempotence\<close>

lemma ocu_twice:
  "map (\<lambda>r. r\<lparr>row_fetched_at := 0\<rparr>)
     (on_conflict_do_update (on_conflict_do_update tbl sid k src t1) sid k src t2) =
   map (\<lambda>r. r\<lparr>row_fetched_at := 0\<rparr>) (on_conflict_do_update tbl sid k src t1)"
proof -
  let ?X = "on_conflict_do_update tbl sid k src t1"
  let ?upd = "\<lambda>r. if key_value r = k
               then r\<lparr>security_id := sid, row_source := src, row_fetched_at := t2\<rparr>
               else r"
  have "k \<in> set (map key_value ?X)" by (simp add: ocu_keys)
  then have eq: "on_conflict_do_update ?X sid k src t2 = map ?upd ?X"
    by (rule ocu_present)
  have "(?upd x)\<lparr>row_fetched_at := 0\<rparr> = x\<lparr>row_fetched_at := 0\<rparr>" if "x \<in> set ?X" for x
  proof (cases "key_value x = k")
    case True
    from ocu_row_k [OF that True] show ?thesis by simp
  next
    case False
    then show ?thesis by simp
  qed
  then show ?thesis unfolding eq by (simp add: comp_def)
qed

lemma oco_twice:
  "map (\<lambda>r. r\<lparr>row_fetched_at := 0\<rparr>)
     (on_conflict_optional (on_conflict_optional tbl sid v src t1) sid v src t2) =
   map (\<lambda>r. r\<lparr>row_fetched_at := 0\<rparr>) (on_conflict_optional tbl sid v src t1)"
  by (simp add: on_conflict_optional_def ocu_twice split: option.splits)

lemma reupdate_same:
  assumes "\<And>s. s \<in> set rows \<Longrightarrow> s_id s = sid \<Longrightarrow>
     s_name s = name r \<and> s_security_type s = or_null (security_type r)
       \<and> s_market_sector s = or_null (market_sector r)"
  shows "map (\<lambda>s. s\<lparr>s_updated_at := 0\<rparr>) (map (update_security r ts sid) rows) =
         map (\<lambda>s. s\<lparr>s_updated_at := 0\<rparr>) rows"
proof -
  have "(update_security r ts sid s)\<lparr>s_updated_at := 0\<rparr> = s\<lparr>s_updated_at := 0\<rparr>"
    if "s \<in> set rows" for s
  proof (cases "s_id s = sid")
    case True
    with assms [OF that] show ?thesis
      by (intro securities_row.equality) (simp_all add: update_security_def)
  next
    case False
    then show ?thesis by (simp add: update_security_def)
  qed
  then show ?thesis by (simp add: comp_def)
qed

lemma first_call_rows:
  assumes "store_ok db" and "insertSecurity db r ts = Inr (sid, db')"
    and "s \<in> set (securities db')" and "s_id s = sid"
  shows "s_name s = name r \<and> s_security_type s = or_null (security_type r)
       \<and> s_market_sector s = or_null (market_sector r)"
proof (cases "find_existing db r")
  case None
  from assms(2) insertSecurity_new [OF None, of ts]
  have sid: "sid = next_rowid db"
    and rows: "securities db' = securities db @ [new_security r ts (next_rowid db)]"
    by (auto simp add: with_identifiers_simps)
  have "s \<notin> set (securities db)"
  proof
    assume "s \<in> set (securities db)"
    then have "s_id s \<in> set (ids db)" by (simp add: ids_def)
    with assms(4) sid next_rowid_fresh [of db] show False by simp
  qed
  with assms(3) rows have "s = new_security r ts (next_rowid db)" by simp
  then show ?thesis by (simp add: new_security_def)
next
  case (Some i)
  from assms(2) insertSecurity_found [OF assms(1) Some, of ts]
  have "sid = i" and "securities db' = map (update_security r ts i) (securities db)"
    by (auto simp add: with_identifiers_simps)
  with assms(3,4) obtain s0 where "s = update_security r ts sid s0" by auto
  with assms(4) show ?thesis by (auto simp add: update_security_def split: if_splits)
qed

text \<open>
  C3. On a store that satisfies its schema, two calls of \<open>insertSecurity\<close> in succession with
  the same record both succeed and return the same identity; the second call leaves the
  number of rows of the securities table and of each of the four identifier tables as
  the first call left them, and the two stores differ in update and fetch timestamps only.
\<close>

theorem upsert_idempotent:
  assumes "store_ok db"
  shows "\<exists>sid db1 db2.
           insertSecurity db r t1 = Inr (sid, db1)
         \<and> insertSecurity db1 r t2 = Inr (sid, db2)
         \<and> length (securities db2) = length (securities db1)
         \<and> length (identifiers_ticker db2) = length (identifiers_ticker db1)
         \<and> length (identifiers_isin db2) = length (identifiers_isin db1)
         \<and> length (identifiers_cusip db2) = length (identifiers_cusip db1)
         \<and> length (identifiers_cik db2) = length (identifiers_cik db1)
         \<and> forget_timestamps db2 = forget_timestamps db1"
proof -
  obtain sid db1 where ins1: "insertSecurity db r t1 = Inr (sid, db1)"
    using insertSecurity_total [OF assms] by blast
  have ok1: "store_ok db1" using assms ins1 by (rule insertSecurity_store_ok)
  note tables1 = insertSecurity_tables [OF assms ins1]
  have hit: "select_security_id (identifiers_ticker db1) (ticker r, exchange r) = Some sid"
    by (simp add: tables1 select_ocu_hit)
  from store_ok_select_ticker [OF ok1 hit] have "sid \<noteq> 0" by simp
  with hit have fe: "find_existing db1 r = Some sid"
    by (simp add: find_existing_def Let_def falsy_id_def)
  let ?db2 = "with_identifiers
               (db1\<lparr>securities := map (update_security r t2 sid) (securities db1)\<rparr>) sid r t2"
  have ins2: "insertSecurity db1 r t2 = Inr (sid, ?db2)"
    using ok1 fe by (rule insertSecurity_found)
  have sec: "map (\<lambda>s. s\<lparr>s_updated_at := 0\<rparr>) (securities ?db2) =
             map (\<lambda>s. s\<lparr>s_updated_at := 0\<rparr>) (securities db1)"
    using reupdate_same [of "securities db1" sid r t2] first_call_rows [OF assms ins1]
    by (simp add: with_identifiers_simps)
  have tk: "map (\<lambda>r. r\<lparr>row_fetched_at := 0\<rparr>) (identifiers_ticker ?db2) =
            map (\<lambda>r. r\<lparr>row_fetched_at := 0\<rparr>) (identifiers_ticker db1)"
    by (simp add: with_identifiers_simps tables1 ocu_twice)
  have isn: "map (\<lambda>r. r\<lparr>row_fetched_at := 0\<rparr>) (identifiers_isin ?db2) =
            map (\<lambda>r. r\<lparr>row_fetched_at := 0\<rparr>) (identifiers_isin db1)"
    by (simp add: with_identifiers_simps tables1 oco_twice)
  have cus: "map (\<lambda>r. r\<lparr>row_fetched_at := 0\<rparr>) (identifiers_cusip ?db2) =
            map (\<lambda>r. r\<lparr>row_fetched_at := 0\<rparr>) (identifiers_cusip db1)"
    by (simp add: with_identifiers_simps tables1 oco_twice)
  have ck: "map (\<lambda>r. r\<lparr>row_fetched_at := 0\<rparr>) (identifiers_cik ?db2) =
            map (\<lambda>r. r\<lparr>row_fetched_at := 0\<rparr>) (identifiers_cik db1)"
    by (simp add: with_identifiers_simps tables1 oco_twice)
  have forget: "forget_timestamps ?db2 = forget_timestamps db1"
    unfolding forget_timestamps_def sec tk isn cus ck
    by (intro Database.equality) (simp_all add: with_identifiers_simps)
  have "length (securities ?db2) = length (securities db1)"
    using arg_cong [OF sec, of length] by simp
  moreover have "length (identifiers_ticker ?db2) = length (identifiers_ticker db1)"
    using arg_cong [OF tk, of length] by simp
  moreover have "length (identifiers_isin ?db2) = length (identifiers_isin db1)"
    using arg_cong [OF isn, of length] by simp
  moreover have "length (identifiers_cusip ?db2) = length (identifiers_cusip db1)"
    using arg_cong [OF cus, of length] by simp
  moreover have "length (identifiers_cik ?db2) = length (identifiers_cik db1)"
    using arg_cong [OF ck, of length] by simp
  ultimately show ?thesis using ins1 ins2 forget by blast
qed

theorem upsert_idempotent_witness:
  "store_ok two_securities
   \<and> (\<exists>sid db1 db2.
           insertSecurity two_securities alpha_with_isin 3 = Inr (sid, db1)
         \<and> insertSecurity db1 alpha_with_isin 4 = Inr (sid, db2)
         \<and> length (securities db2) = length (securities db1)
         \<and> length (identifiers_ticker db2) = length (identifiers_ticker db1)
         \<and> length (identifiers_isin db2) = length (identifiers_isin db1)
         \<and> length (identifiers_cusip db2) = length (identifiers_cusip db1)
         \<and> length (identifiers_cik db2) = length (identifiers_cik db1)
         \<and> forget_timestamps db2 = forget_timestamps db1)"
proof -
  have ok: "store_ok two_securities" by code_simp
  from ok upsert_idempotent [OF ok, of alpha_with_isin 3 4] show ?thesis by (rule conjI)
qed

subsection \<open>Identifier rows are updated in place\<close>

lemma filter_key_count:
  "distinct (map f xs) \<Longrightarrow> k \<in> set (map f xs) \<Longrightarrow> length (filter (\<lambda>r. f r = k) xs) = 1"
proof (induction xs)
  case Nil
  then show ?case by simp
next
  case (Cons x xs)
  show ?case
  proof (cases "f x = k")
    case True
    with Cons.prems(1) have "k \<notin> f ` set xs" by simp
    then have "filter (\<lambda>r. f r = k) xs = []"
      unfolding filter_empty_conv by blast
    with True show ?thesis by simp
  next
    case False
    with Cons show ?thesis by simp
  qed
qed

lemma ocu_updated_in_place:
  assumes "distinct (map key_value tbl)" and "k \<in> set (map key_value tbl)"
  shows "updated_in_place tbl (on_conflict_do_update tbl sid k src ts) k sid src ts"
proof -
  let ?new = "on_conflict_do_update tbl sid k src ts"
  have eq: "?new = map (\<lambda>r. if key_value r = k
               then r\<lparr>security_id := sid, row_source := src, row_fetched_at := ts\<rparr>
               else r) tbl"
    using assms(2) by (rule ocu_present)
  have "distinct (map key_value ?new)" using assms(1) by (rule ocu_distinct)
  moreover have "k \<in> set (map key_value ?new)" by (simp add: ocu_keys)
  ultimately have one: "length (filter (\<lambda>r. key_value r = k) ?new) = 1"
    by (rule filter_key_count)
  have len: "length ?new = length tbl" using assms(2) by (simp add: ocu_length)
  have "\<forall>j < length tbl.
         ?new ! j = (if key_value (tbl ! j) = k
                    then (tbl ! j)\<lparr>security_id := sid, row_source := src,
                                   row_fetched_at := ts\<rparr>
                    else tbl ! j)"
    unfolding eq by simp
  with len one show ?thesis unfolding updated_in_place_def by blast
qed

lemma oco_updated_in_place:
  assumes "distinct (map key_value tbl)" and "or_null v = Some k"
    and "k \<in> set (map key_value tbl)"
  shows "updated_in_place tbl (on_conflict_optional tbl sid v src ts) k sid src ts"
  using ocu_updated_in_place [OF assms(1,3)] assms(2) by (simp add: on_conflict_optional_def)

text \<open>
  C5, as stated: an identifier row that already exists has only its provenance tag and
  its timestamp changed. In the store built from \<open>alpha\<close> and \<open>beta\<close>, the ISIN row points at
  security 2; after \<open>alpha_with_isin\<close>, which the ticker probe resolves to security 1, the same
  row points at security 1.
\<close>

theorem upsert_repoints_counterexample:
  "insert_all initDatabase [(alpha, 1), (beta, 2)] = Inr two_securities
   \<and> identifiers_isin two_securities =
       [\<lparr>security_id = 2, key_value = ''US0378331005'', row_source = ''test'',
         row_fetched_at = 2\<rparr>]
   \<and> insertSecurity two_securities alpha_with_isin 3 = Inr (1, relinked)
   \<and> identifiers_isin relinked =
       [\<lparr>security_id = 1, key_value = ''US0378331005'', row_source = ''fmp'',
         row_fetched_at = 3\<rparr>]"
proof -
  have "insert_all initDatabase [(alpha, 1), (beta, 2)] = Inr two_securities" by code_simp
  moreover have "insertSecurity two_securities alpha_with_isin 3 = Inr (1, relinked)"
    by code_simp
  moreover have "identifiers_isin two_securities =
       [\<lparr>security_id = 2, key_value = ''US0378331005'', row_source = ''test'',
         row_fetched_at = 2\<rparr>]" by (simp add: two_securities_def)
  moreover have "identifiers_isin relinked =
       [\<lparr>security_id = 1, key_value = ''US0378331005'', row_source = ''fmp'',
         row_fetched_at = 3\<rparr>]" by (simp add: relinked_def)
  ultimately show ?thesis by (intro conjI)
qed

text \<open>
  C5, amended: when \<open>insertSecurity\<close> is given an identifier value that already has a row in
  its table, that row is updated in place: its provenance tag and timestamp are
  overwritten and its reference is set to the resolved security; the row keeps its
  position, every other row of the table is unchanged, and the table holds exactly one
  row for the value. After any call no table holds two rows for one value.
\<close>

theorem upsert_updates_in_place:
  assumes "store_ok db" and "insertSecurity db r ts = Inr (sid, db')"
  shows "((ticker r, exchange r) \<in> set (map key_value (identifiers_ticker db)) \<longrightarrow>
            updated_in_place (identifiers_ticker db) (identifiers_ticker db')
              (ticker r, exchange r) sid (source r) ts)
       \<and> (\<forall>v. or_null (isin r) = Some v \<and> v \<in> set (map key_value (identifiers_isin db)) \<longrightarrow>
            updated_in_place (identifiers_isin db) (identifiers_isin db') v sid (source r) ts)
       \<and> (\<forall>v. or_null (cusip r) = Some v \<and> v \<in> set (map key_value (identifiers_cusip db)) \<longrightarrow>
            updated_in_place (identifiers_cusip db) (identifiers_cusip db') v sid (source r) ts)
       \<and> (\<forall>v. or_null (cik r) = Some v \<and> v \<in> set (map key_value (identifiers_cik db)) \<longrightarrow>
            updated_in_place (identifiers_cik db) (identifiers_cik db') v sid (source r) ts)
       \<and> distinct (map key_value (identifiers_ticker db'))
       \<and> distinct (map key_value (identifiers_isin db'))
       \<and> distinct (map key_value (identifiers_cusip db'))
       \<and> distinct (map key_value (identifiers_cik db'))"
proof -
  note tables = insertSecurity_tables [OF assms]
  from assms(1) have d: "distinct (map key_value (identifiers_ticker db))"
    "distinct (map key_value (identifiers_isin db))"
    "distinct (map key_value (identifiers_cusip db))"
    "distinct (map key_value (identifiers_cik db))"
    by (simp_all add: store_ok_def)
  have ok': "store_ok db'" using assms by (rule insertSecurity_store_ok)
  then have d': "distinct (map key_value (identifiers_ticker db'))"
    "distinct (map key_value (identifiers_isin db'))"
    "distinct (map key_value (identifiers_cusip db'))"
    "distinct (map key_value (identifiers_cik db'))"
    by (simp_all add: store_ok_def)
  show ?thesis
    unfolding tables
    using d d' [unfolded tables]
    by (intro conjI impI allI) (auto intro: ocu_updated_in_place oco_updated_in_place)
qed

theorem upsert_updates_in_place_witness:
  "store_ok apple_store
   \<and> (\<exists>sid db'. insertSecurity apple_store (Apple_with_cik ''sec'') 2 = Inr (sid, db')
        \<and> (''AAPL'', ''NASDAQ'') \<in> set (map key_value (identifiers_ticker apple_store))
        \<and> updated_in_place (identifiers_ticker apple_store) (identifiers_ticker db')
              (''AAPL'', ''NASDAQ'') sid ''sec'' 2
        \<and> ''US0378331005'' \<in> set (map key_value (identifiers_isin apple_store))
        \<and> updated_in_place (identifiers_isin apple_store) (identifiers_isin db')
              ''US0378331005'' sid ''sec'' 2
        \<and> ''037833100'' \<in> set (map key_value (identifiers_cusip apple_store))
        \<and> updated_in_place (identifiers_cusip apple_store) (identifiers_cusip db')
              ''037833100'' sid ''sec'' 2
        \<and> ''0000320193'' \<in> set (map key_value (identifiers_cik apple_store))
        \<and> updated_in_place (identifiers_cik apple_store) (identifiers_cik db')
              ''0000320193'' sid ''sec'' 2)"
proof -
  let ?r = "Apple_with_cik ''sec''"
  have ok: "store_ok apple_store" by code_simp
  obtain sid db' where ins: "insertSecurity apple_store ?r 2 = Inr (sid, db')"
    using insertSecurity_total [OF ok] by blast
  have r: "ticker ?r = ''AAPL''" "exchange ?r = ''NASDAQ''" "source ?r = ''sec''"
    "or_null (isin ?r) = Some ''US0378331005''" "or_null (cusip ?r) = Some ''037833100''"
    "or_null (cik ?r) = Some ''0000320193''"
    by (simp_all add: Apple_with_cik_def Apple_def or_null_def)
  have m1: "(''AAPL'', ''NASDAQ'') \<in> set (map key_value (identifiers_ticker apple_store))"
    by (simp add: apple_store_def)
  have m2: "''US0378331005'' \<in> set (map key_value (identifiers_isin apple_store))"
    by (simp add: apple_store_def)
  have m3: "''037833100'' \<in> set (map key_value (identifiers_cusip apple_store))"
    by (simp add: apple_store_def)
  have m4: "''0000320193'' \<in> set (map key_value (identifiers_cik apple_store))"
    by (simp add: apple_store_def)
  note t = upsert_updates_in_place [OF ok ins, unfolded r]
  have u1: "updated_in_place (identifiers_ticker apple_store) (identifiers_ticker db')
              (''AAPL'', ''NASDAQ'') sid ''sec'' 2"
    using t [THEN conjunct1] m1 by (rule mp)
  have u2: "updated_in_place (identifiers_isin apple_store) (identifiers_isin db')
              ''US0378331005'' sid ''sec'' 2"
    using t [THEN conjunct2, THEN conjunct1] m2 by blast
  have u3: "updated_in_place (identifiers_cusip apple_store) (identifiers_cusip db')
              ''037833100'' sid ''sec'' 2"
    using t [THEN conjunct2, THEN conjunct2, THEN conjunct1] m3 by blast
  have u4: "updated_in_place (identifiers_cik apple_store) (identifiers_cik db')
              ''0000320193'' sid ''sec'' 2"
    using t [THEN conjunct2, THEN conjunct2, THEN conjunct2, THEN conjunct1] m4 by blast
  from ok ins m1 u1 m2 u2 m3 u3 m4 u4 show ?thesis by blast
qed

subsection \<open>Lookups\<close>

text \<open>
  C6. Starting from the new store, after \<open>insertSecurity\<close> of the Apple record (with any
  provenance tag, at any time), \<open>lookupByTicker\<close> for AAPL on NASDAQ returns a record with
  ISIN US0378331005 and CUSIP 037833100, \<open>lookupByIsin\<close> returns a record with ticker AAPL,
  and \<open>lookupByCusip\<close> returns a record of the same security as both, the one the upsert
  returned.
\<close>

theorem end_to_end_read_your_writes:
  "\<exists>sid db by_ticker by_isin by_cusip.
           insertSecurity initDatabase (Apple src) ts = Inr (sid, db)
         \<and> lookupByTicker db ''AAPL'' (Some ''NASDAQ'') = Some by_ticker
         \<and> res_isin by_ticker = Some ''US0378331005''
         \<and> res_cusip by_ticker = Some ''037833100''
         \<and> lookupByIsin db ''US0378331005'' = Some by_isin
         \<and> res_ticker by_isin = Some ''AAPL''
         \<and> lookupByCusip db ''037833100'' = Some by_cusip
         \<and> res_id by_cusip = res_id by_ticker \<and> res_id by_cusip = res_id by_isin
         \<and> res_id by_cusip = sid"
proof -
  let ?db = "\<lparr>securities = [\<lparr>s_id = 1, s_name = ''Apple Inc.'', s_security_type = None,
                s_market_sector = None, s_created_at = ts, s_updated_at = ts\<rparr>],
            sqlite_sequence = 1,
            identifiers_ticker = [\<lparr>security_id = 1, key_value = (''AAPL'', ''NASDAQ''),
                  row_source = src, row_fetched_at = ts\<rparr>],
            identifiers_isin = [\<lparr>security_id = 1, key_value = ''US0378331005'',
                  row_source = src, row_fetched_at = ts\<rparr>],
            identifiers_cusip = [\<lparr>security_id = 1, key_value = ''037833100'',
                  row_source = src, row_fetched_at = ts\<rparr>],
            identifiers_cik = []\<rparr>"
  have ins: "insertSecurity initDatabase (Apple src) ts = Inr (1, ?db)"
    by (simp add: Apple_def insertSecurity_def initDatabase_def find_existing_def
        select_security_id_def falsy_id_def or_null_def create_or_update_def next_rowid_def
        ids_def upsert_identifier_def upsert_optional_def on_conflict_do_update_def Let_def)
  have t: "lookupByTicker ?db ''AAPL'' (Some ''NASDAQ'') =
      Some \<lparr>res_id = 1, res_name = ''Apple Inc.'', res_ticker = Some ''AAPL'',
        res_exchange = Some ''NASDAQ'', res_isin = Some ''US0378331005'',
        res_cusip = Some ''037833100'', res_cik = None, res_security_type = None,
        res_market_sector = None, res_source = ''db'', res_fetched_at = ts\<rparr>"
    by (simp add: lookupByTicker_def select_by_ticker_def left_join_def first_row_def
        or_null_def)
  have i: "lookupByIsin ?db ''US0378331005'' =
      Some \<lparr>res_id = 1, res_name = ''Apple Inc.'', res_ticker = Some ''AAPL'',
        res_exchange = Some ''NASDAQ'', res_isin = Some ''US0378331005'',
        res_cusip = Some ''037833100'', res_cik = None, res_security_type = None,
        res_market_sector = None, res_source = ''db'', res_fetched_at = ts\<rparr>"
    by (simp add: lookupByIsin_def select_by_isin_def left_join_def first_row_def
        or_null_def)
  have c: "lookupByCusip ?db ''037833100'' =
      Some \<lparr>res_id = 1, res_name = ''Apple Inc.'', res_ticker = Some ''AAPL'',
        res_exchange = Some ''NASDAQ'', res_isin = Some ''US0378331005'',
        res_cusip = Some ''037833100'', res_cik = None, res_security_type = None,
        res_market_sector = None, res_source = ''db'', res_fetched_at = ts\<rparr>"
    by (simp add: lookupByCusip_def select_by_cusip_def left_join_def first_row_def
        or_null_def)
  from ins t i c show ?thesis by simp
qed

lemma left_join_nonempty: "left_join tbl P \<noteq> []"
  by (simp add: left_join_def split: list.splits)

lemma select_by_ticker_set:
  "(s, t, i, c, k) \<in> set (select_by_ticker db P) \<longleftrightarrow>
     t \<in> set (identifiers_ticker db) \<and> P t \<and>
     s \<in> set (securities db) \<and> security_id t = s_id s \<and>
     i \<in> set (left_join (identifiers_isin db) (\<lambda>i. s_id s = security_id i)) \<and>
     c \<in> set (left_join (identifiers_cusip db) (\<lambda>c. s_id s = security_id c)) \<and>
     k \<in> set (left_join (identifiers_cik db) (\<lambda>k. s_id s = security_id k))"
  unfolding select_by_ticker_def by (simp add: image_iff) blast

lemma select_by_ticker_Nil_iff:
  assumes "store_ok db"
  shows "select_by_ticker db P = [] \<longleftrightarrow> \<not> (\<exists>t \<in> set (identifiers_ticker db). P t)"
proof
  assume e: "select_by_ticker db P = []"
  show "\<not> (\<exists>t \<in> set (identifiers_ticker db). P t)"
  proof
    assume "\<exists>t \<in> set (identifiers_ticker db). P t"
    then obtain t where t: "t \<in> set (identifiers_ticker db)" "P t" by blast
    with assms have "security_id t \<in> set (ids db)" by (simp add: store_ok_def)
    then obtain s where s: "s \<in> set (securities db)" "security_id t = s_id s"
      by (auto simp add: ids_def)
    obtain i where i: "i \<in> set (left_join (identifiers_isin db) (\<lambda>i. s_id s = security_id i))"
      using left_join_nonempty [of "identifiers_isin db"] by (meson last_in_set)
    obtain c where c: "c \<in> set (left_join (identifiers_cusip db) (\<lambda>c. s_id s = security_id c))"
      using left_join_nonempty [of "identifiers_cusip db"] by (meson last_in_set)
    obtain k where k: "k \<in> set (left_join (identifiers_cik db) (\<lambda>k. s_id s = security_id k))"
      using left_join_nonempty [of "identifiers_cik db"] by (meson last_in_set)
    from t s i c k have "(s, t, i, c, k) \<in> set (select_by_ticker db P)"
      by (simp only: select_by_ticker_set simp_thms)
    with e show False by simp
  qed
next
  assume n: "\<not> (\<exists>t \<in> set (identifiers_ticker db). P t)"
  then have "filter P (identifiers_ticker db) = []" by (simp add: filter_empty_conv)
  then show "select_by_ticker db P = []" by (simp add: select_by_ticker_def)
qed

text \<open>
  C9. On a store that satisfies its schema, \<open>lookupByTicker\<close> without an exchange (or with
  the empty string, which the code treats alike) returns a record for the ticker, on an
  exchange that lists it, whenever the ticker table has a row for that ticker on any
  exchange; and it returns the absent result, never an error, when there is no such row.
\<close>

theorem lookupByTicker_without_exchange:
  assumes "store_ok db"
  shows "((\<exists>t \<in> set (identifiers_ticker db). fst (key_value t) = tk) \<longrightarrow>
            (\<exists>res ex. lookupByTicker db tk None = Some res \<and> res_ticker res = Some tk
               \<and> res_exchange res = Some ex
               \<and> (tk, ex) \<in> set (map key_value (identifiers_ticker db))))
       \<and> (\<not> (\<exists>t \<in> set (identifiers_ticker db). fst (key_value t) = tk) \<longrightarrow>
            lookupByTicker db tk None = None)
       \<and> lookupByTicker db tk (Some '''') = lookupByTicker db tk None"
proof (intro conjI impI)
  let ?P = "\<lambda>t :: (string \<times> string) identifier_row. fst (key_value t) = tk"
  let ?rows = "select_by_ticker db ?P"
  show "lookupByTicker db tk (Some '''') = lookupByTicker db tk None"
    by (simp add: lookupByTicker_def or_null_def)
  {
    assume "\<not> (\<exists>t \<in> set (identifiers_ticker db). fst (key_value t) = tk)"
    then have "?rows = []" using select_by_ticker_Nil_iff [OF assms, of ?P] by simp
    then show "lookupByTicker db tk None = None"
      by (simp add: lookupByTicker_def or_null_def first_row_def)
  }
  {
    assume "\<exists>t \<in> set (identifiers_ticker db). fst (key_value t) = tk"
    then have "?rows \<noteq> []" using select_by_ticker_Nil_iff [OF assms, of ?P] by simp
    then obtain row rest where rows: "?rows = row # rest" by (cases ?rows) auto
    obtain s t i c k where row: "row = (s, t, i, c, k)" by (cases row) auto
    have "(s, t, i, c, k) \<in> set ?rows" using rows row by simp
    then have t: "t \<in> set (identifiers_ticker db)" "fst (key_value t) = tk"
      by (simp_all only: select_by_ticker_set)
    then have "(tk, snd (key_value t)) \<in> set (map key_value (identifiers_ticker db))"
      by (metis image_eqI list.set_map prod.collapse)
    with t rows row
    show "\<exists>res ex. lookupByTicker db tk None = Some res \<and> res_ticker res = Some tk
               \<and> res_exchange res = Some ex
               \<and> (tk, ex) \<in> set (map key_value (identifiers_ticker db))"
      by (simp add: lookupByTicker_def or_null_def first_row_def)
  }
qed

theorem lookupByTicker_without_exchange_witness:
  "store_ok two_securities
   \<and> (\<exists>t \<in> set (identifiers_ticker two_securities). fst (key_value t) = ''AAA'')
   \<and> (\<exists>res. lookupByTicker two_securities ''AAA'' None = Some res
         \<and> res_ticker res = Some ''AAA'')
   \<and> \<not> (\<exists>t \<in> set (identifiers_ticker two_securities). fst (key_value t) = ''ZZZ'')
   \<and> lookupByTicker two_securities ''ZZZ'' None = None"
proof -
  have ok: "store_ok two_securities" by code_simp
  have h1: "\<exists>t \<in> set (identifiers_ticker two_securities). fst (key_value t) = ''AAA''"
    by code_simp
  have h2: "\<not> (\<exists>t \<in> set (identifiers_ticker two_securities). fst (key_value t) = ''ZZZ'')"
    by code_simp
  note r1 = lookupByTicker_without_exchange [OF ok, of "''AAA''", THEN conjunct1, THEN mp, OF h1]
  note r2 = lookupByTicker_without_exchange [OF ok, of "''ZZZ''", THEN conjunct2,
      THEN conjunct1, THEN mp, OF h2]
  from r1 have r1': "\<exists>res. lookupByTicker two_securities ''AAA'' None = Some res
         \<and> res_ticker res = Some ''AAA''" by blast
  from ok h1 r1' h2 r2 show ?thesis by (intro conjI)
qed

end
